theory Spec2Isabelle
  imports Main
begin

section \<open>ConfigMerger: \<open>deepMerge\<close> (packages/core/src/utils/merge.ts)\<close>

text \<open>
  The values \<open>deepMerge\<close> receives are configuration trees. A value is one of the
  JavaScript data values; an object is the list of its own enumerable properties in
  enumeration order, which is what \<open>Object.keys\<close> walks. Numbers and strings are
  payloads that the merge never inspects.

  Property reads and writes are reads and writes of own properties. This is what
  JavaScript does on the fresh \<open>result\<close> object for every key but \<open>__proto__\<close>, the
  one name that a plain object resolves to an inherited accessor; that key is outside
  this model.
\<close>

datatype jvalue =
    JUndefined
  | JNull
  | JBool bool
  | JNum int
  | JStr string
  | JArr "jvalue list"
  | JObj (fields: "(string \<times> jvalue) list")

type_synonym jobject = "(string \<times> jvalue) list"

text \<open>
  \<^verbatim>\<open>return !!item && typeof item === 'object' && !Array.isArray(item);\<close>
  \<open>null\<close> is falsy, an array is excluded, and every other data value has another
  \<open>typeof\<close>.
\<close>

fun isObject :: "jvalue \<Rightarrow> bool" where
  "isObject (JObj fs) = True"
| "isObject v = False"

text \<open>\<open>result[key]\<close>: the value of the property, \<open>undefined\<close> when there is none.\<close>

fun get_prop :: "jobject \<Rightarrow> string \<Rightarrow> jvalue" where
  "get_prop [] key = JUndefined"
| "get_prop ((k, v) # rest) key = (if k = key then v else get_prop rest key)"

text \<open>
  \<open>result[key] = v\<close>: an existing property keeps its place in the enumeration
  order, a new one is added last.
\<close>

fun set_prop :: "string \<Rightarrow> jvalue \<Rightarrow> jobject \<Rightarrow> jobject" where
  "set_prop key v [] = [(key, v)]"
| "set_prop key v ((k, w) # rest) =
     (if k = key then (k, v) # rest else (k, w) # set_prop key v rest)"




text \<open>
  The nesting depth of objects, the measure under which the merge terminates. Arrays
  are never entered by the merge, so they count as leaves.
\<close>

fun depth :: "jvalue \<Rightarrow> nat" and depth_fields :: "jobject \<Rightarrow> nat" where
  "depth (JObj fs) = Suc (depth_fields fs)"
| "depth JUndefined = 0"
| "depth JNull = 0"
| "depth (JBool b) = 0"
| "depth (JNum n) = 0"
| "depth (JStr s) = 0"
| "depth (JArr vs) = 0"
| "depth_fields [] = 0"
| "depth_fields ((k, v) # rest) = max (depth v) (depth_fields rest)"

text \<open>
  \<^verbatim>\<open>
  const mergeIntoResult = (obj) => {
    if (!obj) return;
    Object.keys(obj).forEach((key) => {
      const resultValue = result[key];
      const objValue = obj[key];
      if (isObject(resultValue) && isObject(objValue)) {
        result[key] = deepMerge(resultValue, objValue);
      } else {
        result[key] = objValue;
      }
    });
  };\<close>
  The closure updates the variable \<open>result\<close> of the enclosing call; here it takes
  \<open>result\<close> and returns it updated. The loop over \<open>Object.keys(obj)\<close> with the
  read \<open>obj[key]\<close> is the loop over the properties of \<open>obj\<close>. The inner call
  \<open>deepMerge(resultValue, objValue)\<close> starts from an empty result and merges both of
  its arguments into it, which is written out in place (lemma \<open>deepMerge_nested\<close>
  folds it back). The case of an absent \<open>obj\<close> is in \<open>deepMerge\<close> below.
\<close>

function mergeIntoResult :: "jobject \<Rightarrow> jobject \<Rightarrow> jobject" where
  "mergeIntoResult result [] = result"
| "mergeIntoResult result ((key, objValue) # rest) =
     mergeIntoResult
       (let resultValue = get_prop result key in
        if isObject resultValue \<and> isObject objValue
        then set_prop key
               (JObj (mergeIntoResult (mergeIntoResult [] (fields resultValue)) (fields objValue)))
               result
        else set_prop key objValue result)
       rest"
  by pat_completeness auto

subsection \<open>Termination\<close>

text \<open>
  The first argument of the inner call is read from \<open>result\<close>, and the second call is
  made on the outcome of the first: the recursion is nested. The depth of the merged
  object is bounded by the depths of the two arguments, first shown on the domain of the
  function.
\<close>

lemma isObject_iff: "isObject v \<longleftrightarrow> (\<exists>fs. v = JObj fs)"
  by (cases v) auto

lemma depth_get_prop: "depth (get_prop result key) \<le> depth_fields result"
  by (induction result) auto

lemma depth_set_prop:
  "depth_fields (set_prop key v result) \<le> max (depth v) (depth_fields result)"
  by (induction result) auto

lemma depth_fields_of_object: "isObject v \<Longrightarrow> depth_fields (fields v) < depth v"
  by (cases v) auto

lemma mergeIntoResult_depth:
  "mergeIntoResult_dom (result, obj) \<Longrightarrow>
     depth_fields (mergeIntoResult result obj) \<le> max (depth_fields result) (depth_fields obj)"
proof (induction result obj rule: mergeIntoResult.pinduct)
  case (1 result)
  then show ?case by (simp add: mergeIntoResult.psimps)
next
  case (2 result key objValue rest)
  let ?rv = "get_prop result key"
  let ?next = "if isObject ?rv \<and> isObject objValue
        then set_prop key
               (JObj (mergeIntoResult (mergeIntoResult [] (fields ?rv)) (fields objValue)))
               result
        else set_prop key objValue result"
  have step: "depth_fields ?next \<le> max (depth_fields result) (depth objValue)"
  proof (cases "isObject ?rv \<and> isObject objValue")
    case True
    from 2 True have a: "depth_fields (mergeIntoResult [] (fields ?rv)) \<le> depth_fields (fields ?rv)"
      by simp
    from 2 True have b: "depth_fields (mergeIntoResult (mergeIntoResult [] (fields ?rv)) (fields objValue))
        \<le> max (depth_fields (mergeIntoResult [] (fields ?rv))) (depth_fields (fields objValue))"
      by simp
    have c: "depth_fields (fields ?rv) < depth_fields result"
      using True depth_fields_of_object [of ?rv] depth_get_prop [of result key] by simp
    have d: "depth_fields (fields objValue) < depth objValue"
      using True depth_fields_of_object by simp
    have "depth (JObj (mergeIntoResult (mergeIntoResult [] (fields ?rv)) (fields objValue)))
        \<le> max (depth_fields result) (depth objValue)"
      using a b c d by simp
    then show ?thesis
      using True depth_set_prop [of key "JObj (mergeIntoResult (mergeIntoResult [] (fields ?rv)) (fields objValue))" result]
      by simp
  next
    case False
    then show ?thesis
      using depth_set_prop [of key objValue result] by (auto simp: max.commute)
  qed
  have "depth_fields (mergeIntoResult ?next rest) \<le> max (depth_fields ?next) (depth_fields rest)"
    using 2 by (simp add: Let_def)
  then show ?case
    using step 2(1) by (simp add: mergeIntoResult.psimps Let_def)
qed

termination mergeIntoResult
proof (relation "measures [\<lambda>(result, obj). max (depth_fields result) (depth_fields obj),
                          \<lambda>(result, obj). length obj]", goal_cases)
  case 1
  then show ?case by simp
next
  case (2 result key objValue rest x)
  then show ?case
    using depth_fields_of_object [of x] depth_get_prop [of result key] by auto
next
  case (3 result key objValue rest x)
  then show ?case
    using depth_fields_of_object [of x] depth_fields_of_object [of objValue]
      depth_get_prop [of result key] mergeIntoResult_depth [of "[]" "fields x"]
    by auto
next
  case (4 result key objValue rest)
  let ?rv = "get_prop result key"
  let ?m = "mergeIntoResult (mergeIntoResult [] (fields ?rv)) (fields objValue)"
  show ?case
  proof (cases "isObject ?rv \<and> isObject objValue")
    case True
    with 4 have a: "depth_fields (mergeIntoResult [] (fields ?rv)) \<le> depth_fields (fields ?rv)"
      using mergeIntoResult_depth [of "[]" "fields ?rv"] by simp
    from 4 True have b: "depth_fields ?m
        \<le> max (depth_fields (mergeIntoResult [] (fields ?rv))) (depth_fields (fields objValue))"
      using mergeIntoResult_depth [of "mergeIntoResult [] (fields ?rv)" "fields objValue"] by simp
    have c: "depth_fields (fields ?rv) < depth_fields result"
      using True depth_fields_of_object [of ?rv] depth_get_prop [of result key] by simp
    have d: "depth_fields (fields objValue) < depth objValue"
      using True depth_fields_of_object by simp
    show ?thesis
      using True a b c d depth_set_prop [of key "JObj ?m" result] by auto
  next
    case False
    then show ?thesis
      using depth_set_prop [of key objValue result] by auto
  qed
qed


subsection \<open>Properties of the merge\<close>














subsection \<open>The merge, key by key\<close>










section \<open>CommandService: aggregation of slash commands\<close>

text \<open>
  The repository holds the class \<open>CommandService\<close> in three versions: one that
  implements \<open>CommandRegistry\<close> (its \<open>reloadCommands\<close> takes an optional external
  signal), one that implements \<open>CustomCommandManager\<close> (no external signal, the
  controller is cleared in a \<open>finally\<close> clause) and the factory \<open>create\<close> that also
  builds the lookup maps. The loop that resolves name conflicts is the same text in all
  three.
\<close>

subsection \<open>Commands and the JavaScript \<open>Map\<close>\<close>

text \<open>
  A \<open>SlashCommand\<close> with the fields the services read or copy. \<open>kind\<close> is the tag of
  the enumeration \<open>CommandKind\<close>; an optional field is \<open>None\<close> when it is
  \<open>undefined\<close>. The \<open>action\<close> of a command is a closure that no code here calls.
\<close>

datatype SlashCommand = SlashCommand
  (name: string)
  (description: string)
  (kind: string)
  (altNames: "string list option")
  (extensionName: "string option")
  (subCommands: "SlashCommand list option")
  (commandMap: "(string \<times> SlashCommand) list option")

text \<open>
  A \<open>Map\<close> from strings keeps its entries in insertion order; \<open>set\<close> on a key that
  is present replaces the value and keeps the place of the entry. \<open>values()\<close> lists
  the values in that order.
\<close>

type_synonym 'v js_map = "(string \<times> 'v) list"

fun map_has :: "'v js_map \<Rightarrow> string \<Rightarrow> bool" where
  "map_has [] key = False"
| "map_has ((k, v) # rest) key = (k = key \<or> map_has rest key)"

fun map_get :: "'v js_map \<Rightarrow> string \<Rightarrow> 'v option" where
  "map_get [] key = None"
| "map_get ((k, v) # rest) key = (if k = key then Some v else map_get rest key)"

fun map_set :: "'v js_map \<Rightarrow> string \<Rightarrow> 'v \<Rightarrow> 'v js_map" where
  "map_set [] key v = [(key, v)]"
| "map_set ((k, w) # rest) key v =
     (if k = key then (k, v) # rest else (k, w) # map_set rest key v)"

definition map_values :: "'v js_map \<Rightarrow> 'v list" where
  "map_values m = map snd m"

text \<open>
  The template literal prints the counter \<open>suffix\<close> in decimal. The counter is a
  natural number here: it starts at 1 and is only incremented, and it never exceeds the
  number of entries of the map (\<open>finalName_suffix_bound\<close> below), which is far below
  the range where a JavaScript number stops being an exact integer.
\<close>

definition digit_char :: "nat \<Rightarrow> char" where
  "digit_char d = ''0123456789'' ! d"

fun string_of_nat :: "nat \<Rightarrow> string" where
  "string_of_nat n =
     (if n < 10 then [digit_char n]
      else string_of_nat (n div 10) @ [digit_char (n mod 10)])"

declare string_of_nat.simps [simp del]

lemma string_of_nat_digit: "n < 10 \<Longrightarrow> string_of_nat n = [digit_char n]"
  by (subst string_of_nat.simps) simp

lemma string_of_nat_more:
  "\<not> n < 10 \<Longrightarrow> string_of_nat n = string_of_nat (n div 10) @ [digit_char (n mod 10)]"
  by (subst string_of_nat.simps) simp

subsection \<open>The renaming loop and its termination\<close>

text \<open>
  \<^verbatim>\<open>
  let renamedName = `${cmd.extensionName}.${cmd.name}`;
  let suffix = 1;
  while (commandMap.has(renamedName)) {
    renamedName = `${cmd.extensionName}.${cmd.name}${suffix}`;
    suffix++;
  }\<close>
  The loop ends because the map is finite: a decimal numeral of a number from
  \<open>10 ^ k\<close> on has more than \<open>k\<close> digits, so from some counter on the candidate is
  longer than every key.
\<close>

definition max_key_length :: "'v js_map \<Rightarrow> nat" where
  "max_key_length m = foldr (\<lambda>(k, v) acc. max (length k) acc) m 0"

lemma length_string_of_nat: "10 ^ k \<le> n \<Longrightarrow> k < length (string_of_nat n)"
proof (induction k arbitrary: n)
  case 0
  then show ?case by (subst string_of_nat.simps) simp
next
  case (Suc k)
  then have "10 \<le> n" and "10 ^ k \<le> n div 10"
    by (auto simp: less_eq_div_iff_mult_less_eq intro: order_trans [of 10 "10 * 10 ^ k"])
  with Suc.IH [of "n div 10"] show ?case
    by (subst string_of_nat.simps) simp
qed

lemma map_has_length: "map_has m key \<Longrightarrow> length key \<le> max_key_length m"
  by (induction m) (auto simp: max_key_length_def)

function renamedName_loop ::
  "'v js_map \<Rightarrow> string \<Rightarrow> string \<Rightarrow> string \<Rightarrow> nat \<Rightarrow> string" where
  "renamedName_loop cmap ext nm renamedName suffix =
     (if map_has cmap renamedName
      then renamedName_loop cmap ext nm
             (ext @ ''.'' @ nm @ string_of_nat suffix) (suffix + 1)
      else renamedName)"
  by pat_completeness auto

termination renamedName_loop
proof (relation "measure (\<lambda>(cmap, ext, nm, renamedName, suffix).
          (if map_has cmap renamedName then 1 else 0)
          + (10 ^ max_key_length cmap - suffix))", goal_cases)
  case 1
  then show ?case by simp
next
  case (2 cmap ext nm renamedName suffix)
  show ?case
  proof (cases "10 ^ max_key_length cmap \<le> suffix")
    case True
    then have "max_key_length cmap < length (ext @ ''.'' @ nm @ string_of_nat suffix)"
      using length_string_of_nat [of "max_key_length cmap" suffix] by simp
    then have "\<not> map_has cmap (ext @ ''.'' @ nm @ string_of_nat suffix)"
      using map_has_length [of cmap "ext @ ''.'' @ nm @ string_of_nat suffix"] by auto
    with 2 True show ?thesis by simp
  next
    case False
    with 2 show ?thesis by auto
  qed
qed
declare renamedName_loop.simps [simp del]

lemma renamedName_loop_taken:
  "map_has cmap renamedName \<Longrightarrow>
     renamedName_loop cmap ext nm renamedName suffix =
       renamedName_loop cmap ext nm (ext @ ''.'' @ nm @ string_of_nat suffix) (suffix + 1)"
  by (subst renamedName_loop.simps) simp

lemma renamedName_loop_free:
  "\<not> map_has cmap renamedName \<Longrightarrow> renamedName_loop cmap ext nm renamedName suffix = renamedName"
  by (subst renamedName_loop.simps) simp

subsection \<open>Resolving name conflicts\<close>

text \<open>
  \<^verbatim>\<open>
  const commandMap = new Map<string, SlashCommand>();
  for (const cmd of allCommands) {
    let finalName = cmd.name;
    if (cmd.extensionName && commandMap.has(cmd.name)) {
      ... the renaming loop ...
      finalName = renamedName;
    }
    commandMap.set(finalName, { ...cmd, name: finalName });
  }
  this.commands = Object.freeze(Array.from(commandMap.values()));\<close>
  \<open>cmd.extensionName\<close> in a condition is true for a string that is present and not
  empty.
\<close>

definition truthy :: "string option \<Rightarrow> bool" where
  "truthy s = (case s of None \<Rightarrow> False | Some t \<Rightarrow> t \<noteq> [])"

definition with_name :: "string \<Rightarrow> SlashCommand \<Rightarrow> SlashCommand" where
  "with_name finalName cmd =
     SlashCommand finalName (description cmd) (kind cmd) (altNames cmd) (extensionName cmd)
       (subCommands cmd) (commandMap cmd)"

definition finalName :: "'v js_map \<Rightarrow> SlashCommand \<Rightarrow> string" where
  "finalName cmap cmd =
     (if truthy (extensionName cmd) \<and> map_has cmap (name cmd)
      then renamedName_loop cmap (the (extensionName cmd)) (name cmd)
             (the (extensionName cmd) @ ''.'' @ name cmd) 1
      else name cmd)"

definition add_command :: "SlashCommand js_map \<Rightarrow> SlashCommand \<Rightarrow> SlashCommand js_map" where
  "add_command cmap cmd =
     (let renamed = finalName cmap cmd in map_set cmap renamed (with_name renamed cmd))"

definition build_commandMap :: "SlashCommand list \<Rightarrow> SlashCommand js_map" where
  "build_commandMap allCommands = foldl add_command [] allCommands"

definition deduplicate :: "SlashCommand list \<Rightarrow> SlashCommand list" where
  "deduplicate allCommands = map_values (build_commandMap allCommands)"

text \<open>
  The names the specification lists for a renamed command, in order:
  \<open>extensionName.name\<close>, \<open>extensionName.name1\<close>, \<open>extensionName.name2\<close>, ...
\<close>

fun renamed_candidate :: "string \<Rightarrow> string \<Rightarrow> nat \<Rightarrow> string" where
  "renamed_candidate ext nm 0 = ext @ ''.'' @ nm"
| "renamed_candidate ext nm (Suc k) = ext @ ''.'' @ nm @ string_of_nat (Suc k)"

lemma renamedName_loop_first_unused:
  "0 < suffix \<Longrightarrow> map_has cmap renamedName \<Longrightarrow>
     \<exists>k\<ge>suffix.
       renamedName_loop cmap ext nm renamedName suffix = renamed_candidate ext nm k
       \<and> \<not> map_has cmap (renamed_candidate ext nm k)
       \<and> (\<forall>j. suffix \<le> j \<and> j < k \<longrightarrow> map_has cmap (renamed_candidate ext nm j))"
proof (induction cmap ext nm renamedName suffix rule: renamedName_loop.induct)
  case (1 cmap ext nm renamedName suffix)
  let ?next = "ext @ ''.'' @ nm @ string_of_nat suffix"
  from \<open>0 < suffix\<close> obtain s where s: "suffix = Suc s"
    by (cases suffix) auto
  then have cand: "renamed_candidate ext nm suffix = ?next"
    by simp
  have unfold: "renamedName_loop cmap ext nm renamedName suffix =
      renamedName_loop cmap ext nm ?next (suffix + 1)"
    using "1.prems"(2) by (subst renamedName_loop.simps) simp
  show ?case
  proof (cases "map_has cmap ?next")
    case True
    with "1.IH" "1.prems" obtain k where k: "suffix + 1 \<le> k"
      "renamedName_loop cmap ext nm ?next (suffix + 1) = renamed_candidate ext nm k"
      "\<not> map_has cmap (renamed_candidate ext nm k)"
      "\<forall>j. suffix + 1 \<le> j \<and> j < k \<longrightarrow> map_has cmap (renamed_candidate ext nm j)"
      by auto
    have "\<forall>j. suffix \<le> j \<and> j < k \<longrightarrow> map_has cmap (renamed_candidate ext nm j)"
    proof (intro allI impI)
      fix j assume j: "suffix \<le> j \<and> j < k"
      show "map_has cmap (renamed_candidate ext nm j)"
      proof (cases "j = suffix")
        case True
        then show ?thesis using \<open>map_has cmap ?next\<close> cand by simp
      next
        case False
        with j k(4) show ?thesis by auto
      qed
    qed
    with k unfold show ?thesis
      by (intro exI [of _ k]) auto
  next
    case False
    then have "renamedName_loop cmap ext nm ?next (suffix + 1) = ?next"
      by (subst renamedName_loop.simps) simp
    with False unfold cand show ?thesis
      by (intro exI [of _ suffix]) auto
  qed
qed

lemma finalName_first_unused:
  assumes "truthy (extensionName cmd)" and "map_has cmap (name cmd)"
  shows "\<exists>k. finalName cmap cmd = renamed_candidate (the (extensionName cmd)) (name cmd) k
       \<and> \<not> map_has cmap (renamed_candidate (the (extensionName cmd)) (name cmd) k)
       \<and> (\<forall>j<k. map_has cmap (renamed_candidate (the (extensionName cmd)) (name cmd) j))"
proof -
  let ?ext = "the (extensionName cmd)"
  let ?first = "?ext @ ''.'' @ name cmd"
  have fn: "finalName cmap cmd = renamedName_loop cmap ?ext (name cmd) ?first 1"
    using assms by (simp add: finalName_def)
  show ?thesis
  proof (cases "map_has cmap ?first")
    case False
    then have "renamedName_loop cmap ?ext (name cmd) ?first 1 = ?first"
      by (subst renamedName_loop.simps) simp
    with False fn show ?thesis
      by (intro exI [of _ 0]) simp
  next
    case True
    from renamedName_loop_first_unused [of 1 cmap ?first ?ext "name cmd"] True
    obtain k where k: "1 \<le> k"
      "renamedName_loop cmap ?ext (name cmd) ?first 1 = renamed_candidate ?ext (name cmd) k"
      "\<not> map_has cmap (renamed_candidate ?ext (name cmd) k)"
      "\<forall>j. 1 \<le> j \<and> j < k \<longrightarrow> map_has cmap (renamed_candidate ?ext (name cmd) j)"
      by auto
    have "\<forall>j<k. map_has cmap (renamed_candidate ?ext (name cmd) j)"
    proof (intro allI impI)
      fix j assume "j < k"
      show "map_has cmap (renamed_candidate ?ext (name cmd) j)"
      proof (cases j)
        case 0
        then show ?thesis using True by simp
      next
        case (Suc i)
        with \<open>j < k\<close> k(4) show ?thesis by auto
      qed
    qed
    with k fn show ?thesis
      by (intro exI [of _ k]) simp
  qed
qed

lemma build_commandMap_snoc:
  "build_commandMap (before @ [cmd]) = add_command (build_commandMap before) cmd"
  by (simp add: build_commandMap_def)

lemma map_has_iff: "map_has m key \<longleftrightarrow> key \<in> fst ` set m"
  by (induction m) auto

lemma map_fst_map_set:
  "map fst (map_set m key v) = (if map_has m key then map fst m else map fst m @ [key])"
  by (induction m) auto

lemma distinct_map_set: "distinct (map fst m) \<Longrightarrow> distinct (map fst (map_set m key v))"
  by (simp add: map_fst_map_set map_has_iff)

lemma set_map_set: "set (map_set m key v) \<subseteq> insert (key, v) (set m)"
  by (induction m) (auto split: if_splits)

definition keyed_by_name :: "SlashCommand js_map \<Rightarrow> bool" where
  "keyed_by_name m = (distinct (map fst m) \<and> (\<forall>(key, cmd)\<in>set m. name cmd = key))"

lemma name_with_name: "name (with_name n cmd) = n"
  by (simp add: with_name_def)

lemma keyed_by_name_add_command: "keyed_by_name m \<Longrightarrow> keyed_by_name (add_command m cmd)"
  unfolding keyed_by_name_def add_command_def Let_def
  using set_map_set [of m "finalName m cmd" "with_name (finalName m cmd) cmd"]
  by (auto simp: distinct_map_set name_with_name)

lemma keyed_by_name_foldl:
  "keyed_by_name m \<Longrightarrow> keyed_by_name (foldl add_command m allCommands)"
  by (induction allCommands arbitrary: m) (auto simp: keyed_by_name_add_command)

lemma keyed_by_name_build: "keyed_by_name (build_commandMap allCommands)"
proof -
  have "keyed_by_name []" by (simp add: keyed_by_name_def)
  then show ?thesis
    unfolding build_commandMap_def by (rule keyed_by_name_foldl)
qed

lemma keyed_names: "keyed_by_name m \<Longrightarrow> map name (map_values m) = map fst m"
  by (induction m) (auto simp: keyed_by_name_def map_values_def)

lemma deduplicate_names_distinct: "distinct (map name (deduplicate allCommands))"
  using keyed_by_name_build [of allCommands]
  by (simp add: deduplicate_def keyed_names) (simp add: keyed_by_name_def)

lemma map_has_build_commandMap:
  "map_has (build_commandMap allCommands) key \<longleftrightarrow> key \<in> set (map name (deduplicate allCommands))"
proof -
  have "map name (deduplicate allCommands) = map fst (build_commandMap allCommands)"
    using keyed_names [OF keyed_by_name_build, of allCommands] by (simp add: deduplicate_def)
  then show ?thesis
    by (simp add: map_has_iff)
qed

text \<open>
  Different counters give different candidates, and every candidate before the one
  chosen is a key of the map: the counter is bounded by the number of entries.
\<close>

lemma digit_char_inject:
  "d < 10 \<Longrightarrow> e < 10 \<Longrightarrow> digit_char d = digit_char e \<Longrightarrow> d = e"
proof -
  assume d: "d < 10" and e: "e < 10" and eq: "digit_char d = digit_char e"
  have "distinct ''0123456789''" by simp
  moreover have "d < length ''0123456789''" "e < length ''0123456789''"
    using d e by simp_all
  ultimately show "d = e"
    using eq unfolding digit_char_def by (simp only: nth_eq_iff_index_eq)
qed

lemma string_of_nat_nonempty: "string_of_nat n \<noteq> []" "[] \<noteq> string_of_nat n"
  by (subst string_of_nat.simps, simp)+

lemma string_of_nat_inject: "string_of_nat n = string_of_nat m \<Longrightarrow> n = m"
proof (induction n arbitrary: m rule: string_of_nat.induct)
  case (1 n)
  show ?case
  proof (cases "n < 10")
    case True
    show ?thesis
    proof (cases "m < 10")
      case m: True
      with True "1.prems" show ?thesis
        by (simp add: string_of_nat_digit digit_char_inject)
    next
      case m: False
      with True "1.prems" show ?thesis
        by (simp add: string_of_nat_digit string_of_nat_more string_of_nat_nonempty
            append_eq_Cons_conv)
    qed
  next
    case False
    show ?thesis
    proof (cases "m < 10")
      case m: True
      with False "1.prems" show ?thesis
        by (simp add: string_of_nat_digit string_of_nat_more string_of_nat_nonempty
            Cons_eq_append_conv)
    next
      case m: False
      with False "1.prems" have "string_of_nat (n div 10) = string_of_nat (m div 10)"
        and "digit_char (n mod 10) = digit_char (m mod 10)"
        by (simp_all add: string_of_nat_more)
      with "1.IH" False have "n div 10 = m div 10" and "n mod 10 = m mod 10"
        by (simp_all add: digit_char_inject)
      then show ?thesis
        by (metis div_mult_mod_eq)
    qed
  qed
qed

lemma renamed_candidate_inject:
  "renamed_candidate ext nm j = renamed_candidate ext nm k \<Longrightarrow> j = k"
  by (cases j; cases k)
    (auto simp: string_of_nat_nonempty dest: string_of_nat_inject)

lemma candidates_bounded:
  assumes "\<forall>j<k. map_has cmap (renamed_candidate ext nm j)"
  shows "k \<le> length cmap"
proof -
  have "inj_on (renamed_candidate ext nm) {..<k}"
    by (rule inj_onI) (rule renamed_candidate_inject)
  then have "k = card (renamed_candidate ext nm ` {..<k})"
    by (simp add: card_image)
  also have "\<dots> \<le> card (fst ` set cmap)"
    using assms by (intro card_mono) (auto simp: map_has_iff)
  also have "\<dots> \<le> length cmap"
    by (metis card_image_le card_length le_trans List.finite_set)
  finally show ?thesis .
qed

lemma finalName_suffix_bound:
  assumes "truthy (extensionName cmd)" and "map_has cmap (name cmd)"
  shows "\<exists>k\<le>length cmap.
     finalName cmap cmd = renamed_candidate (the (extensionName cmd)) (name cmd) k"
  using finalName_first_unused [OF assms] candidates_bounded by blast

definition builtin_help :: SlashCommand where
  "builtin_help = SlashCommand ''help'' ''Show help'' ''built-in'' None None None None"
definition ext_help :: SlashCommand where
  "ext_help = SlashCommand ''help'' ''Extension help'' ''file'' None (Some ''myext'') None None"
definition file_myext_help :: SlashCommand where
  "file_myext_help = SlashCommand ''myext.help'' ''A file command'' ''file'' None None None None"

lemmas dedup_eval =
  deduplicate_def build_commandMap_def add_command_def finalName_def truthy_def
  with_name_def map_values_def renamedName_loop_taken renamedName_loop_free
  string_of_nat_digit string_of_nat_more digit_char_def Let_def

text \<open>
  The example of the specification: an extension command \<open>help\<close> of the extension
  \<open>myext\<close> next to the built-in \<open>help\<close> is published as \<open>myext.help\<close>, and as
  \<open>myext.help1\<close>, \<open>myext.help2\<close> when the earlier names are taken. A later command
  without an extension takes the place of an entry of its name.
\<close>

lemma collision_example:
  "map name (deduplicate [builtin_help, ext_help]) = [''help'', ''myext.help'']"
  "map name (deduplicate [builtin_help, file_myext_help, ext_help, ext_help])
     = [''help'', ''myext.help'', ''myext.help1'', ''myext.help2'']"
  "deduplicate [builtin_help, ext_help, file_myext_help] = [builtin_help, file_myext_help]"
  by (simp_all add: dedup_eval builtin_help_def ext_help_def file_myext_help_def)

text \<open>
  Claim C1. Let \<open>before\<close> be the commands already processed and \<open>cmd\<close> the next
  one. The command is stored under \<open>finalName\<close>, as a copy that carries that name.
  A name is taken exactly when a command of the snapshot so far has it. If \<open>cmd\<close>
  carries an \<open>extensionName\<close> (a string that is present and not empty, the test of the
  source) and its name is taken, then \<open>finalName\<close> is the first name of the list
  \<open>extensionName.name\<close>, \<open>extensionName.name1\<close>, \<open>extensionName.name2\<close>, ...
  that is not taken. In every other case, and always for a command without an
  \<open>extensionName\<close>, \<open>finalName\<close> is the name of the command.
\<close>

theorem collision_renaming:
  "build_commandMap (before @ [cmd]) =
     map_set (build_commandMap before) (finalName (build_commandMap before) cmd)
       (with_name (finalName (build_commandMap before) cmd) cmd)
   \<and> (\<forall>key. map_has (build_commandMap before) key
          \<longleftrightarrow> key \<in> set (map name (deduplicate before)))
   \<and> (truthy (extensionName cmd) \<and> map_has (build_commandMap before) (name cmd) \<longrightarrow>
        (\<exists>k. finalName (build_commandMap before) cmd
               = renamed_candidate (the (extensionName cmd)) (name cmd) k
           \<and> \<not> map_has (build_commandMap before)
                 (renamed_candidate (the (extensionName cmd)) (name cmd) k)
           \<and> (\<forall>j<k. map_has (build_commandMap before)
                 (renamed_candidate (the (extensionName cmd)) (name cmd) j))))
   \<and> (\<not> (truthy (extensionName cmd) \<and> map_has (build_commandMap before) (name cmd)) \<longrightarrow>
        finalName (build_commandMap before) cmd = name cmd)
   \<and> (extensionName cmd = None \<longrightarrow> finalName (build_commandMap before) cmd = name cmd)"
proof -
  let ?m = "build_commandMap before"
  have 1: "build_commandMap (before @ [cmd]) =
      map_set ?m (finalName ?m cmd) (with_name (finalName ?m cmd) cmd)"
    by (simp add: build_commandMap_snoc add_command_def Let_def)
  have 2: "\<forall>key. map_has ?m key \<longleftrightarrow> key \<in> set (map name (deduplicate before))"
    using map_has_build_commandMap by blast
  have 3: "truthy (extensionName cmd) \<and> map_has ?m (name cmd) \<longrightarrow>
        (\<exists>k. finalName ?m cmd = renamed_candidate (the (extensionName cmd)) (name cmd) k
           \<and> \<not> map_has ?m (renamed_candidate (the (extensionName cmd)) (name cmd) k)
           \<and> (\<forall>j<k. map_has ?m (renamed_candidate (the (extensionName cmd)) (name cmd) j)))"
    using finalName_first_unused [of cmd ?m] by blast
  have 4: "\<not> (truthy (extensionName cmd) \<and> map_has ?m (name cmd)) \<longrightarrow>
        finalName ?m cmd = name cmd"
    by (simp add: finalName_def)
  have 5: "extensionName cmd = None \<longrightarrow> finalName ?m cmd = name cmd"
    by (simp add: finalName_def truthy_def)
  from 1 2 3 4 5 show ?thesis by blast
qed

theorem collision_renaming_witness:
  "truthy (extensionName ext_help)
   \<and> map_has (build_commandMap [builtin_help, file_myext_help]) (name ext_help)
   \<and> map_has (build_commandMap [builtin_help, file_myext_help])
        (renamed_candidate ''myext'' ''help'' 0)
   \<and> \<not> map_has (build_commandMap [builtin_help, file_myext_help])
        (renamed_candidate ''myext'' ''help'' 1)
   \<and> build_commandMap ([builtin_help, file_myext_help] @ [ext_help]) =
       [(''help'', builtin_help), (''myext.help'', file_myext_help),
        (''myext.help1'', with_name ''myext.help1'' ext_help)]
   \<and> extensionName builtin_help = None
   \<and> finalName (build_commandMap [ext_help]) builtin_help = name builtin_help"
proof -
  have m: "build_commandMap [builtin_help, file_myext_help]
      = [(''help'', builtin_help), (''myext.help'', file_myext_help)]"
    by (simp add: dedup_eval builtin_help_def file_myext_help_def)
  have fn: "finalName [(''help'', builtin_help), (''myext.help'', file_myext_help)] ext_help
      = ''myext.help1''"
    by (simp add: dedup_eval ext_help_def)
  have none: "extensionName builtin_help = None"
    by (simp add: builtin_help_def)
  from collision_renaming [of "[builtin_help, file_myext_help]" ext_help]
  have step: "build_commandMap ([builtin_help, file_myext_help] @ [ext_help]) =
      map_set (build_commandMap [builtin_help, file_myext_help])
        (finalName (build_commandMap [builtin_help, file_myext_help]) ext_help)
        (with_name (finalName (build_commandMap [builtin_help, file_myext_help]) ext_help) ext_help)"
    by blast
  from collision_renaming [of "[ext_help]" builtin_help] none
  have keep: "finalName (build_commandMap [ext_help]) builtin_help = name builtin_help"
    by blast
  have taken: "truthy (extensionName ext_help)
      \<and> map_has [(''help'', builtin_help), (''myext.help'', file_myext_help)] (name ext_help)
      \<and> map_has [(''help'', builtin_help), (''myext.help'', file_myext_help)]
           (renamed_candidate ''myext'' ''help'' 0)
      \<and> \<not> map_has [(''help'', builtin_help), (''myext.help'', file_myext_help)]
           (renamed_candidate ''myext'' ''help'' 1)"
    by (simp add: truthy_def ext_help_def string_of_nat_digit digit_char_def)
  show ?thesis
    using step keep none taken by (simp add: m fn)
qed

subsection \<open>Names and aliases in a snapshot\<close>

text \<open>The names under which a command can be addressed: its name and its aliases.\<close>

definition all_names :: "SlashCommand \<Rightarrow> string list" where
  "all_names cmd = name cmd # (case altNames cmd of None \<Rightarrow> [] | Some aliases \<Rightarrow> aliases)"

text \<open>
  The property of claim C2 as it is worded: no name or alias of one command of the
  list is a name or alias of another.
\<close>

fun no_shared_names :: "SlashCommand list \<Rightarrow> bool" where
  "no_shared_names [] = True"
| "no_shared_names (cmd # rest) =
     ((\<forall>other\<in>set rest. set (all_names cmd) \<inter> set (all_names other) = {})
      \<and> no_shared_names rest)"

definition memory_command :: SlashCommand where
  "memory_command =
     SlashCommand ''memory'' ''Manage memory'' ''built-in'' (Some [''mem'']) None None None"

definition mem_command :: SlashCommand where
  "mem_command = SlashCommand ''mem'' ''A file command'' ''file'' None None None None"

text \<open>
  Claim C2, as far as it holds: the commands of a snapshot have pairwise different
  names. The deduplication compares names only and never reads \<open>altNames\<close>.
\<close>

theorem snapshot_names_distinct: "distinct (map name (deduplicate allCommands))"
  by (rule deduplicate_names_distinct)

text \<open>
  Claim C2 as stated fails: the built-in command \<open>memory\<close> with the alias \<open>mem\<close>
  and a file command named \<open>mem\<close> are both in the snapshot, unchanged.
\<close>

theorem snapshot_alias_counterexample:
  "deduplicate [memory_command, mem_command] = [memory_command, mem_command]
   \<and> \<not> no_shared_names (deduplicate [memory_command, mem_command])"
  by (simp add: dedup_eval memory_command_def mem_command_def all_names_def)

subsection \<open>Commands as objects: the copy made by the renaming\<close>

















section \<open>CommandService: reloading, cancellation and subscribers\<close>

text \<open>
  \<open>reloadCommands\<close> is an asynchronous method with one suspension point, the
  \<open>await\<close> of \<open>Promise.allSettled\<close>. JavaScript runs the code before and after that
  point without interruption, so a call is two atomic steps: \<open>begin\<close> (up to the
  \<open>await\<close>, which hands the signal to the loaders) and \<open>settled\<close> (from the
  \<open>await\<close> on, with the outcome of every loader in loader order). Overlapping calls
  are interleavings of such steps.

  A loader either fulfils with its commands or rejects with a reason. The reason is an
  \<open>Error\<close> with a name, or any other thrown value.
\<close>

datatype rejection = JsError (error_name: string) (error_message: string) | Thrown string

text \<open>\<^verbatim>\<open>result.reason instanceof Error && result.reason.name === 'AbortError'\<close>\<close>

fun is_AbortError :: "rejection \<Rightarrow> bool" where
  "is_AbortError (JsError n msg) = (n = ''AbortError'')"
| "is_AbortError (Thrown v) = False"

datatype settled = Fulfilled "SlashCommand list" | Rejected rejection

text \<open>
  A signal is the signal of a controller the service created, or one the caller
  supplied. Controllers are numbered in the order of their creation.
\<close>

datatype signal = Internal nat | External nat

text \<open>
  The fields of the service (\<open>commands\<close>, \<open>listeners\<close>, \<open>currentAbortController\<close>)
  and what the service acts on: the \<open>aborted\<close> flags of all signals, the number of
  controllers created, the lines written by \<open>debugLogger.debug\<close>, the listeners
  invoked so far, in order, and the snapshots assigned to \<open>this.commands\<close> so far.
  A listener is an opaque callback, known by its identity; invoking it is recorded.
  A callback may throw (the predicate \<open>throws\<close> says which ones do) but does not
  call back into the service; loaders report failure by rejecting.
\<close>

record service =
  commands :: "SlashCommand list"
  listeners :: "nat list"
  currentAbortController :: "nat option"
  aborted :: "signal list"
  controllers :: nat
  debug_log :: "rejection list"
  invoked :: "nat list"
  published :: "SlashCommand list list"

definition new_CommandService :: service where
  "new_CommandService =
     \<lparr>commands = [], listeners = [], currentAbortController = None,
      aborted = [], controllers = 0, debug_log = [], invoked = [], published = []\<rparr>"

definition signal_aborted :: "service \<Rightarrow> signal \<Rightarrow> bool" where
  "signal_aborted s sig = (sig \<in> set (aborted s))"

definition abort :: "signal \<Rightarrow> service \<Rightarrow> service" where
  "abort sig s = s\<lparr>aborted := aborted s @ [sig]\<rparr>"

definition new_AbortController :: "service \<Rightarrow> nat \<times> service" where
  "new_AbortController s = (controllers s, s\<lparr>controllers := controllers s + 1\<rparr>)"

text \<open>
  \<^verbatim>\<open>for (const listener of this.listeners) { listener(); }\<close>
  The loop stops at the first listener that throws, and the exception leaves
  \<open>notifyListeners\<close>: the result is the listener that threw, if any, with the
  listeners invoked up to and including it.
\<close>

fun invoke_all :: "(nat \<Rightarrow> bool) \<Rightarrow> nat list \<Rightarrow> nat option \<times> nat list" where
  "invoke_all throws [] = (None, [])"
| "invoke_all throws (listener # rest) =
     (if throws listener then (Some listener, [listener])
      else (let (thrown, calls) = invoke_all throws rest in (thrown, listener # calls)))"

definition notifyListeners :: "(nat \<Rightarrow> bool) \<Rightarrow> service \<Rightarrow> nat option \<times> service" where
  "notifyListeners throws s =
     (let (thrown, calls) = invoke_all throws (listeners s)
      in (thrown, s\<lparr>invoked := invoked s @ calls\<rparr>))"

text \<open>
  The promise of a call either resolves or rejects with what a listener threw.
\<close>

datatype outcome = Resolved | Failed nat

subsection \<open>The version that implements \<open>CommandRegistry\<close>\<close>

text \<open>
  \<^verbatim>\<open>
  if (!externalSignal) {
    if (this.currentAbortController) {
      this.currentAbortController.abort();
    }
    this.currentAbortController = new AbortController();
  }
  const signal = externalSignal ?? this.currentAbortController!.signal;\<close>
\<close>

definition reloadCommands_begin :: "nat option \<Rightarrow> service \<Rightarrow> signal \<times> service" where
  "reloadCommands_begin externalSignal s =
     (case externalSignal of
        Some ext \<Rightarrow> (External ext, s)
      | None \<Rightarrow>
          (let s1 = (case currentAbortController s of
                       Some c \<Rightarrow> abort (Internal c) s
                     | None \<Rightarrow> s);
               (c, s2) = new_AbortController s1
           in (Internal c, s2\<lparr>currentAbortController := Some c\<rparr>)))"

text \<open>
  \<^verbatim>\<open>
  for (const result of results) {
    if (result.status === 'fulfilled') {
      allCommands.push(...result.value);
    } else {
      if (result.reason instanceof Error && result.reason.name === 'AbortError') {
        continue;
      }
      debugLogger.debug('A command loader failed:', result.reason);
    }
  }\<close>
\<close>

fun gather :: "settled list \<Rightarrow> SlashCommand list \<Rightarrow> rejection list
    \<Rightarrow> SlashCommand list \<times> rejection list" where
  "gather [] allCommands logged = (allCommands, logged)"
| "gather (Fulfilled v # results) allCommands logged = gather results (allCommands @ v) logged"
| "gather (Rejected reason # results) allCommands logged =
     (if is_AbortError reason then gather results allCommands logged
      else gather results allCommands (logged @ [reason]))"

definition publish :: "SlashCommand list \<Rightarrow> service \<Rightarrow> service" where
  "publish snapshot s = s\<lparr>commands := snapshot, published := published s @ [snapshot]\<rparr>"

text \<open>
  \<^verbatim>\<open>
  if (signal.aborted) {
    return;
  }
  ... the loop over the results, the conflict loop ...
  this.commands = Object.freeze(Array.from(commandMap.values()));
  this.notifyListeners();
  } catch (e) {
    if (signal.aborted) {
      return;
    }
    throw e;
  }\<close>
\<close>

definition reloadCommands_settled ::
  "(nat \<Rightarrow> bool) \<Rightarrow> signal \<Rightarrow> settled list \<Rightarrow> service \<Rightarrow> outcome \<times> service" where
  "reloadCommands_settled throws sig results s =
     (if signal_aborted s sig then (Resolved, s)
      else (let (allCommands, logged) = gather results [] [];
                s1 = s\<lparr>debug_log := debug_log s @ logged\<rparr>;
                s2 = publish (deduplicate allCommands) s1;
                (thrown, s3) = notifyListeners throws s2
            in case thrown of
                 None \<Rightarrow> (Resolved, s3)
               | Some listener \<Rightarrow>
                   (if signal_aborted s3 sig then Resolved else Failed listener, s3)))"

text \<open>
  The listeners are a \<open>Set\<close>, which iterates in insertion order: adding a member
  again changes nothing, deleting removes it. \<open>subscribe\<close> returns the closure that
  deletes the listener.
\<close>

definition unsubscribe :: "nat \<Rightarrow> service \<Rightarrow> service" where
  "unsubscribe listener s = s\<lparr>listeners := filter (\<lambda>l. l \<noteq> listener) (listeners s)\<rparr>"

definition subscribe :: "nat \<Rightarrow> service \<Rightarrow> (service \<Rightarrow> service) \<times> service" where
  "subscribe listener s =
     (unsubscribe listener,
      s\<lparr>listeners := (if listener \<in> set (listeners s) then listeners s
                        else listeners s @ [listener])\<rparr>)"

subsection \<open>The version that implements \<open>CustomCommandManager\<close>\<close>

text \<open>
  This version takes no external signal, logs every rejection, has no \<open>catch\<close>
  clause (what a listener throws always rejects the promise), clears the controller in
  a \<open>finally\<close> clause when it is still the one of this call, and keeps the
  listeners in an array: \<open>subscribe\<close> pushes, the returned closure filters.
  \<^verbatim>\<open>
  } finally {
    if (this.currentAbortController?.signal === signal) {
      this.currentAbortController = null;
    }
  }\<close>
\<close>

definition ccm_reloadCommands_begin :: "service \<Rightarrow> signal \<times> service" where
  "ccm_reloadCommands_begin s =
     (let s1 = (case currentAbortController s of
                  Some c \<Rightarrow> abort (Internal c) s
                | None \<Rightarrow> s);
          (c, s2) = new_AbortController s1
      in (Internal c, s2\<lparr>currentAbortController := Some c\<rparr>))"

fun ccm_gather :: "settled list \<Rightarrow> SlashCommand list \<Rightarrow> rejection list
    \<Rightarrow> SlashCommand list \<times> rejection list" where
  "ccm_gather [] allCommands logged = (allCommands, logged)"
| "ccm_gather (Fulfilled v # results) allCommands logged =
     ccm_gather results (allCommands @ v) logged"
| "ccm_gather (Rejected reason # results) allCommands logged =
     ccm_gather results allCommands (logged @ [reason])"

definition ccm_finally :: "signal \<Rightarrow> service \<Rightarrow> service" where
  "ccm_finally sig s =
     (if (case currentAbortController s of Some c \<Rightarrow> Internal c = sig | None \<Rightarrow> False)
      then s\<lparr>currentAbortController := None\<rparr> else s)"

definition ccm_reloadCommands_settled ::
  "(nat \<Rightarrow> bool) \<Rightarrow> signal \<Rightarrow> settled list \<Rightarrow> service \<Rightarrow> outcome \<times> service" where
  "ccm_reloadCommands_settled throws sig results s =
     (let (result, s') =
            (if signal_aborted s sig then (Resolved, s)
             else (let (allCommands, logged) = ccm_gather results [] [];
                       s1 = s\<lparr>debug_log := debug_log s @ logged\<rparr>;
                       s2 = publish (deduplicate allCommands) s1;
                       (thrown, s3) = notifyListeners throws s2
                   in case thrown of
                        None \<Rightarrow> (Resolved, s3)
                      | Some listener \<Rightarrow> (Failed listener, s3)))
      in (result, ccm_finally sig s'))"

definition ccm_unsubscribe :: "nat \<Rightarrow> service \<Rightarrow> service" where
  "ccm_unsubscribe listener s = s\<lparr>listeners := filter (\<lambda>l. l \<noteq> listener) (listeners s)\<rparr>"

definition ccm_subscribe :: "nat \<Rightarrow> service \<Rightarrow> (service \<Rightarrow> service) \<times> service" where
  "ccm_subscribe listener s = (ccm_unsubscribe listener, s\<lparr>listeners := listeners s @ [listener]\<rparr>)"

subsection \<open>Histories\<close>

text \<open>
  What can happen to a service, one atomic step at a time: a call of \<open>reloadCommands\<close>
  begins (with or without an external signal; the second version ignores the argument),
  the loaders of a call settle, a listener is subscribed, an unsubscribe closure is
  called, the owner of an external signal aborts it.
\<close>

datatype event =
    Begin "nat option"
  | Settle signal "settled list"
  | Subscribe nat
  | Unsubscribe nat
  | AbortExternal nat

fun step :: "(nat \<Rightarrow> bool) \<Rightarrow> service \<Rightarrow> event \<Rightarrow> service" where
  "step throws s (Begin externalSignal) = snd (reloadCommands_begin externalSignal s)"
| "step throws s (Settle sig results) = snd (reloadCommands_settled throws sig results s)"
| "step throws s (Subscribe listener) = snd (subscribe listener s)"
| "step throws s (Unsubscribe listener) = unsubscribe listener s"
| "step throws s (AbortExternal ext) = abort (External ext) s"

definition run :: "(nat \<Rightarrow> bool) \<Rightarrow> service \<Rightarrow> event list \<Rightarrow> service" where
  "run throws s events = foldl (step throws) s events"

fun ccm_step :: "(nat \<Rightarrow> bool) \<Rightarrow> service \<Rightarrow> event \<Rightarrow> service" where
  "ccm_step throws s (Begin externalSignal) = snd (ccm_reloadCommands_begin s)"
| "ccm_step throws s (Settle sig results) = snd (ccm_reloadCommands_settled throws sig results s)"
| "ccm_step throws s (Subscribe listener) = snd (ccm_subscribe listener s)"
| "ccm_step throws s (Unsubscribe listener) = ccm_unsubscribe listener s"
| "ccm_step throws s (AbortExternal ext) = abort (External ext) s"

definition ccm_run :: "(nat \<Rightarrow> bool) \<Rightarrow> service \<Rightarrow> event list \<Rightarrow> service" where
  "ccm_run throws s events = foldl (ccm_step throws) s events"

text \<open>
  The commands of the loaders that fulfilled, in loader order, and the reasons of those
  that rejected.
\<close>

fun fulfilled_commands :: "settled list \<Rightarrow> SlashCommand list" where
  "fulfilled_commands [] = []"
| "fulfilled_commands (Fulfilled v # results) = v @ fulfilled_commands results"
| "fulfilled_commands (Rejected reason # results) = fulfilled_commands results"

fun rejections :: "settled list \<Rightarrow> rejection list" where
  "rejections [] = []"
| "rejections (Fulfilled v # results) = rejections results"
| "rejections (Rejected reason # results) = reason # rejections results"

lemma gather_eq:
  "gather results allCommands logged =
     (allCommands @ fulfilled_commands results,
      logged @ filter (\<lambda>r. \<not> is_AbortError r) (rejections results))"
  by (induction results allCommands logged rule: gather.induct) auto

lemma ccm_gather_eq:
  "ccm_gather results allCommands logged =
     (allCommands @ fulfilled_commands results, logged @ rejections results)"
  by (induction results allCommands logged rule: ccm_gather.induct) auto

lemma fulfilled_commands_append:
  "fulfilled_commands (rs1 @ rs2) = fulfilled_commands rs1 @ fulfilled_commands rs2"
  by (induction rs1 rule: fulfilled_commands.induct) auto




lemma invoke_all_thrown: "fst (invoke_all throws ls) = Some l \<Longrightarrow> throws l \<and> l \<in> set ls"
  by (induction ls) (auto split: prod.splits if_splits)

lemma reloadCommands_settled_aborted:
  "signal_aborted s sig \<Longrightarrow> reloadCommands_settled throws sig results s = (Resolved, s)"
  by (simp add: reloadCommands_settled_def)

lemma reloadCommands_settled_live:
  "\<not> signal_aborted s sig \<Longrightarrow>
     snd (reloadCommands_settled throws sig results s) =
       s\<lparr>debug_log := debug_log s @ filter (\<lambda>r. \<not> is_AbortError r) (rejections results),
         commands := deduplicate (fulfilled_commands results),
         published := published s @ [deduplicate (fulfilled_commands results)],
         invoked := invoked s @ snd (invoke_all throws (listeners s))\<rparr>"
  by (simp add: reloadCommands_settled_def gather_eq publish_def notifyListeners_def
      split: prod.splits option.splits)

lemma reloadCommands_settled_outcome:
  "fst (reloadCommands_settled throws sig results s) =
     (if signal_aborted s sig then Resolved
      else (case fst (invoke_all throws (listeners s)) of
              None \<Rightarrow> Resolved
            | Some listener \<Rightarrow> Failed listener))"
  by (simp add: reloadCommands_settled_def gather_eq publish_def notifyListeners_def
      signal_aborted_def split: prod.splits option.splits)

lemma ccm_reloadCommands_settled_aborted:
  "signal_aborted s sig \<Longrightarrow>
     ccm_reloadCommands_settled throws sig results s = (Resolved, ccm_finally sig s)"
  by (simp add: ccm_reloadCommands_settled_def)

lemma ccm_reloadCommands_settled_live:
  "\<not> signal_aborted s sig \<Longrightarrow>
     snd (ccm_reloadCommands_settled throws sig results s) =
       ccm_finally sig
        (s\<lparr>debug_log := debug_log s @ rejections results,
           commands := deduplicate (fulfilled_commands results),
           published := published s @ [deduplicate (fulfilled_commands results)],
           invoked := invoked s @ snd (invoke_all throws (listeners s))\<rparr>)"
  by (simp add: ccm_reloadCommands_settled_def ccm_gather_eq publish_def notifyListeners_def
      split: prod.splits option.splits)

lemma ccm_reloadCommands_settled_outcome:
  "fst (ccm_reloadCommands_settled throws sig results s) =
     (if signal_aborted s sig then Resolved
      else (case fst (invoke_all throws (listeners s)) of
              None \<Rightarrow> Resolved
            | Some listener \<Rightarrow> Failed listener))"
  by (simp add: ccm_reloadCommands_settled_def ccm_gather_eq publish_def notifyListeners_def
      split: prod.splits option.splits)

lemma ccm_finally_fields [simp]:
  "commands (ccm_finally sig s) = commands s"
  "debug_log (ccm_finally sig s) = debug_log s"
  "invoked (ccm_finally sig s) = invoked s"
  "published (ccm_finally sig s) = published s"
  "listeners (ccm_finally sig s) = listeners s"
  "aborted (ccm_finally sig s) = aborted s"
  "controllers (ccm_finally sig s) = controllers s"
  by (simp_all add: ccm_finally_def)

lemma begin_internal_fields:
  "fst (reloadCommands_begin None s) = Internal (controllers s)"
  "currentAbortController (snd (reloadCommands_begin None s)) = Some (controllers s)"
  "controllers (snd (reloadCommands_begin None s)) = controllers s + 1"
  "aborted (snd (reloadCommands_begin None s)) =
     (case currentAbortController s of Some c \<Rightarrow> aborted s @ [Internal c] | None \<Rightarrow> aborted s)"
  "commands (snd (reloadCommands_begin None s)) = commands s"
  "listeners (snd (reloadCommands_begin None s)) = listeners s"
  "invoked (snd (reloadCommands_begin None s)) = invoked s"
  "published (snd (reloadCommands_begin None s)) = published s"
  "debug_log (snd (reloadCommands_begin None s)) = debug_log s"
  by (simp_all add: reloadCommands_begin_def new_AbortController_def abort_def
      split: option.splits)

lemma begin_external: "reloadCommands_begin (Some ext) s = (External ext, s)"
  by (simp add: reloadCommands_begin_def)

lemma begin_fields:
  "currentAbortController (snd (reloadCommands_begin x s)) =
     (case x of Some ext \<Rightarrow> currentAbortController s | None \<Rightarrow> Some (controllers s))"
  "controllers (snd (reloadCommands_begin x s)) =
     (case x of Some ext \<Rightarrow> controllers s | None \<Rightarrow> controllers s + 1)"
  "aborted (snd (reloadCommands_begin x s)) =
     (case x of
        Some ext \<Rightarrow> aborted s
      | None \<Rightarrow>
          (case currentAbortController s of
             Some c \<Rightarrow> aborted s @ [Internal c]
           | None \<Rightarrow> aborted s))"
  "commands (snd (reloadCommands_begin x s)) = commands s"
  "listeners (snd (reloadCommands_begin x s)) = listeners s"
  "invoked (snd (reloadCommands_begin x s)) = invoked s"
  "published (snd (reloadCommands_begin x s)) = published s"
  "debug_log (snd (reloadCommands_begin x s)) = debug_log s"
  by (cases x; simp add: begin_internal_fields begin_external)+

lemma ccm_begin_fields:
  "fst (ccm_reloadCommands_begin s) = Internal (controllers s)"
  "currentAbortController (snd (ccm_reloadCommands_begin s)) = Some (controllers s)"
  "controllers (snd (ccm_reloadCommands_begin s)) = controllers s + 1"
  "aborted (snd (ccm_reloadCommands_begin s)) =
     (case currentAbortController s of Some c \<Rightarrow> aborted s @ [Internal c] | None \<Rightarrow> aborted s)"
  "commands (snd (ccm_reloadCommands_begin s)) = commands s"
  "listeners (snd (ccm_reloadCommands_begin s)) = listeners s"
  "invoked (snd (ccm_reloadCommands_begin s)) = invoked s"
  "published (snd (ccm_reloadCommands_begin s)) = published s"
  "debug_log (snd (ccm_reloadCommands_begin s)) = debug_log s"
  by (simp_all add: ccm_reloadCommands_begin_def new_AbortController_def abort_def
      split: option.splits)

lemma settled_fields:
  "aborted (snd (reloadCommands_settled throws sig results s)) = aborted s"
  "currentAbortController (snd (reloadCommands_settled throws sig results s))
     = currentAbortController s"
  "controllers (snd (reloadCommands_settled throws sig results s)) = controllers s"
  "listeners (snd (reloadCommands_settled throws sig results s)) = listeners s"
  by (cases "signal_aborted s sig";
      simp add: reloadCommands_settled_aborted reloadCommands_settled_live)+

lemma ccm_settled_fields:
  "aborted (snd (ccm_reloadCommands_settled throws sig results s)) = aborted s"
  "controllers (snd (ccm_reloadCommands_settled throws sig results s)) = controllers s"
  "listeners (snd (ccm_reloadCommands_settled throws sig results s)) = listeners s"
  by (cases "signal_aborted s sig";
      simp add: ccm_reloadCommands_settled_aborted ccm_reloadCommands_settled_live)+

lemma ccm_settled_current:
  "currentAbortController (snd (ccm_reloadCommands_settled throws sig results s)) =
     (if (case currentAbortController s of Some c \<Rightarrow> Internal c = sig | None \<Rightarrow> False)
      then None else currentAbortController s)"
  by (cases "signal_aborted s sig";
      simp add: ccm_reloadCommands_settled_aborted ccm_reloadCommands_settled_live ccm_finally_def)

text \<open>An aborted signal stays aborted.\<close>

lemma aborted_step: "sig \<in> set (aborted s) \<Longrightarrow> sig \<in> set (aborted (step throws s e))"
  by (cases e)
     (auto simp: begin_fields settled_fields subscribe_def
        unsubscribe_def abort_def split: option.splits)

lemma aborted_run: "sig \<in> set (aborted s) \<Longrightarrow> sig \<in> set (aborted (run throws s evs))"
  unfolding run_def by (induction evs arbitrary: s) (auto simp: aborted_step)

lemma ccm_aborted_step: "sig \<in> set (aborted s) \<Longrightarrow> sig \<in> set (aborted (ccm_step throws s e))"
  by (cases e)
     (auto simp: ccm_begin_fields ccm_settled_fields ccm_subscribe_def
        ccm_unsubscribe_def abort_def split: option.splits)

lemma ccm_aborted_run: "sig \<in> set (aborted s) \<Longrightarrow> sig \<in> set (aborted (ccm_run throws s evs))"
  unfolding ccm_run_def by (induction evs arbitrary: s) (auto simp: ccm_aborted_step)

text \<open>The controller of a reload is the current one until it is aborted.\<close>

definition current_or_aborted :: "nat \<Rightarrow> service \<Rightarrow> bool" where
  "current_or_aborted c s =
     (currentAbortController s = Some c \<or> Internal c \<in> set (aborted s))"

lemma current_or_aborted_step:
  "current_or_aborted c s \<Longrightarrow> current_or_aborted c (step throws s e)"
  by (cases e)
     (auto simp: current_or_aborted_def begin_fields settled_fields
        subscribe_def unsubscribe_def abort_def split: option.splits)

lemma current_or_aborted_run:
  "current_or_aborted c s \<Longrightarrow> current_or_aborted c (run throws s evs)"
  unfolding run_def by (induction evs arbitrary: s) (auto simp: current_or_aborted_step)

lemma current_kept_step:
  "e \<noteq> Begin None \<Longrightarrow> currentAbortController (step throws s e) = currentAbortController s"
  by (cases e)
     (auto simp: begin_external settled_fields subscribe_def unsubscribe_def abort_def)

lemma current_kept_run:
  "\<forall>e\<in>set evs. e \<noteq> Begin None \<Longrightarrow>
     currentAbortController (run throws s evs) = currentAbortController s"
  unfolding run_def by (induction evs arbitrary: s) (auto simp: current_kept_step)

fun settles :: "signal \<Rightarrow> event \<Rightarrow> bool" where
  "settles sig (Settle sig' results) = (sig' = sig)"
| "settles sig e = False"

lemma ccm_current_or_aborted_step:
  "current_or_aborted c s \<Longrightarrow> \<not> settles (Internal c) e \<Longrightarrow> current_or_aborted c (ccm_step throws s e)"
  by (cases e)
     (auto simp: current_or_aborted_def ccm_begin_fields ccm_settled_fields ccm_settled_current
        ccm_subscribe_def ccm_unsubscribe_def abort_def split: option.splits)

lemma ccm_current_or_aborted_run:
  "current_or_aborted c s \<Longrightarrow> \<forall>e\<in>set evs. \<not> settles (Internal c) e \<Longrightarrow>
     current_or_aborted c (ccm_run throws s evs)"
  unfolding ccm_run_def by (induction evs arbitrary: s) (auto simp: ccm_current_or_aborted_step)

lemma ccm_current_kept_step:
  "\<not> settles (Internal c) e \<Longrightarrow> (\<forall>x. e \<noteq> Begin x) \<Longrightarrow> currentAbortController s = Some c \<Longrightarrow>
     currentAbortController (ccm_step throws s e) = Some c"
  by (cases e)
     (auto simp: ccm_settled_current ccm_subscribe_def ccm_unsubscribe_def abort_def)

lemma ccm_current_kept_run:
  "\<forall>e\<in>set evs. \<not> settles (Internal c) e \<and> (\<forall>x. e \<noteq> Begin x) \<Longrightarrow>
     currentAbortController s = Some c \<Longrightarrow> currentAbortController (ccm_run throws s evs) = Some c"
  unfolding ccm_run_def by (induction evs arbitrary: s) (auto simp: ccm_current_kept_step)

text \<open>Controllers are numbered in the order of their creation.\<close>

definition newer_than :: "nat \<Rightarrow> service \<Rightarrow> bool" where
  "newer_than c s =
     (c < controllers s \<and> (\<forall>d. currentAbortController s = Some d \<longrightarrow> c < d))"

lemma ccm_newer_than_step: "newer_than c s \<Longrightarrow> newer_than c (ccm_step throws s e)"
  by (cases e)
     (auto simp: newer_than_def ccm_begin_fields ccm_settled_fields ccm_settled_current
        ccm_subscribe_def ccm_unsubscribe_def abort_def split: option.splits if_splits)

lemma ccm_newer_than_run: "newer_than c s \<Longrightarrow> newer_than c (ccm_run throws s evs)"
  unfolding ccm_run_def by (induction evs arbitrary: s) (auto simp: ccm_newer_than_step)

lemma ccm_controllers_step: "controllers s \<le> controllers (ccm_step throws s e)"
  by (cases e)
     (auto simp: ccm_begin_fields ccm_settled_fields ccm_subscribe_def ccm_unsubscribe_def
        abort_def)

lemma ccm_controllers_run: "controllers s \<le> controllers (ccm_run throws s evs)"
  unfolding ccm_run_def
proof (induction evs arbitrary: s)
  case Nil
  then show ?case by simp
next
  case (Cons e evs)
  have "controllers s \<le> controllers (ccm_step throws s e)" by (rule ccm_controllers_step)
  also have "\<dots> \<le> controllers (foldl (ccm_step throws) (ccm_step throws s e) evs)" by (rule Cons.IH)
  finally show ?case by simp
qed

















lemma superseded_registry:
  fixes s :: service and evs1 evs2 :: "event list" and throws :: "nat \<Rightarrow> bool"
  defines "first \<equiv> reloadCommands_begin None s"
  defines "s2 \<equiv> run throws (snd first) evs1"
  defines "second \<equiv> reloadCommands_begin None s2"
  defines "s4 \<equiv> run throws (snd second) evs2"
  shows "fst first = Internal (controllers s)"
    and "currentAbortController (snd first) = Some (controllers s)"
    and "(\<forall>e\<in>set evs1. e \<noteq> Begin None) \<longrightarrow> aborted (snd second) = aborted s2 @ [fst first]"
    and "signal_aborted (snd second) (fst first)"
    and "signal_aborted s4 (fst first)"
    and "reloadCommands_settled throws (fst first) results s4 = (Resolved, s4)"
proof -
  let ?c = "controllers s"
  show sig: "fst first = Internal ?c" and cur: "currentAbortController (snd first) = Some ?c"
    by (simp_all add: first_def begin_internal_fields)
  show "(\<forall>e\<in>set evs1. e \<noteq> Begin None) \<longrightarrow> aborted (snd second) = aborted s2 @ [fst first]"
  proof
    assume "\<forall>e\<in>set evs1. e \<noteq> Begin None"
    then have "currentAbortController s2 = Some ?c"
      using cur by (simp add: s2_def current_kept_run)
    then show "aborted (snd second) = aborted s2 @ [fst first]"
      by (simp add: second_def begin_internal_fields sig)
  qed
  have "current_or_aborted ?c (snd first)"
    using cur by (simp add: current_or_aborted_def)
  then have "current_or_aborted ?c s2"
    unfolding s2_def by (rule current_or_aborted_run)
  then have "Internal ?c \<in> set (aborted (snd second))"
    by (auto simp: current_or_aborted_def second_def begin_internal_fields split: option.splits)
  then show 3: "signal_aborted (snd second) (fst first)"
    by (simp add: signal_aborted_def sig)
  then show 4: "signal_aborted s4 (fst first)"
    by (simp add: signal_aborted_def s4_def aborted_run)
  then show "reloadCommands_settled throws (fst first) results s4 = (Resolved, s4)"
    by (rule reloadCommands_settled_aborted)
qed

lemma superseded_manager:
  fixes s :: service and evs1 evs2 :: "event list" and throws :: "nat \<Rightarrow> bool"
  defines "first \<equiv> ccm_reloadCommands_begin s"
  defines "s2 \<equiv> ccm_run throws (snd first) evs1"
  defines "second \<equiv> ccm_reloadCommands_begin s2"
  defines "s4 \<equiv> ccm_run throws (snd second) evs2"
  assumes overlap: "\<forall>e\<in>set evs1. \<not> settles (fst first) e"
  shows "fst first = Internal (controllers s)"
    and "currentAbortController (snd first) = Some (controllers s)"
    and "(\<forall>e\<in>set evs1. \<forall>x. e \<noteq> Begin x) \<longrightarrow> aborted (snd second) = aborted s2 @ [fst first]"
    and "signal_aborted (snd second) (fst first)"
    and "signal_aborted s4 (fst first)"
    and "ccm_reloadCommands_settled throws (fst first) results s4 = (Resolved, s4)"
proof -
  let ?c = "controllers s"
  show sig: "fst first = Internal ?c" and cur: "currentAbortController (snd first) = Some ?c"
    by (simp_all add: first_def ccm_begin_fields)
  from overlap sig have quiet: "\<forall>e\<in>set evs1. \<not> settles (Internal ?c) e"
    by simp
  show "(\<forall>e\<in>set evs1. \<forall>x. e \<noteq> Begin x) \<longrightarrow> aborted (snd second) = aborted s2 @ [fst first]"
  proof
    assume "\<forall>e\<in>set evs1. \<forall>x. e \<noteq> Begin x"
    with quiet have "\<forall>e\<in>set evs1. \<not> settles (Internal ?c) e \<and> (\<forall>x. e \<noteq> Begin x)"
      by blast
    then have "currentAbortController s2 = Some ?c"
      unfolding s2_def using cur by (rule ccm_current_kept_run)
    then show "aborted (snd second) = aborted s2 @ [fst first]"
      by (simp add: second_def ccm_begin_fields sig)
  qed
  have "current_or_aborted ?c (snd first)"
    using cur by (simp add: current_or_aborted_def)
  then have "current_or_aborted ?c s2"
    unfolding s2_def using quiet by (rule ccm_current_or_aborted_run)
  then have "Internal ?c \<in> set (aborted (snd second))"
    by (auto simp: current_or_aborted_def second_def ccm_begin_fields split: option.splits)
  then show 3: "signal_aborted (snd second) (fst first)"
    by (simp add: signal_aborted_def sig)
  then show 4: "signal_aborted s4 (fst first)"
    by (simp add: signal_aborted_def s4_def ccm_aborted_run)
  have "controllers (snd first) \<le> controllers s2"
    unfolding s2_def by (rule ccm_controllers_run)
  then have "?c < controllers s2"
    by (simp add: first_def ccm_begin_fields)
  then have "newer_than ?c (snd second)"
    by (simp add: newer_than_def second_def ccm_begin_fields)
  then have "newer_than ?c s4"
    unfolding s4_def by (rule ccm_newer_than_run)
  then have "ccm_finally (Internal ?c) s4 = s4"
    by (auto simp: newer_than_def ccm_finally_def split: option.splits)
  with 4 show "ccm_reloadCommands_settled throws (fst first) results s4 = (Resolved, s4)"
    by (simp add: ccm_reloadCommands_settled_aborted sig)
qed

subsection \<open>Loader failures\<close>

lemmas service_eval =
  run_def ccm_run_def reloadCommands_begin_def ccm_reloadCommands_begin_def
  reloadCommands_settled_def ccm_reloadCommands_settled_def ccm_finally_def
  new_AbortController_def abort_def publish_def notifyListeners_def signal_aborted_def
  subscribe_def unsubscribe_def ccm_subscribe_def ccm_unsubscribe_def new_CommandService_def

text \<open>The case in which no listener throws.\<close>

definition never :: "nat \<Rightarrow> bool" where
  "never listener = False"

definition example_results :: "settled list" where
  "example_results =
     [Fulfilled [builtin_help],
      Rejected (JsError ''AbortError'' ''The operation was aborted''),
      Rejected (Thrown ''disk failure''),
      Fulfilled [ext_help]]"

text \<open>
  Claim C3, as far as it holds. When the signal of the call is not aborted once the
  loaders have settled, the snapshot published is the deduplication of the commands of
  all loaders that fulfilled, in loader order; a loader that rejected contributes
  nothing and changes nothing for the others (the outcome is the same with that loader
  left out), whether or not a listener throws afterwards. The version with the
  external signal logs every rejection but an \<open>Error\<close> named \<open>AbortError\<close>; the
  version without logs every rejection. When the signal is aborted by then, both
  versions publish nothing and log nothing.
\<close>

theorem loader_failures_isolated:
  "(\<not> signal_aborted s sig \<longrightarrow>
      commands (snd (reloadCommands_settled throws sig results s))
        = deduplicate (fulfilled_commands results)
      \<and> published (snd (reloadCommands_settled throws sig results s))
          = published s @ [deduplicate (fulfilled_commands results)]
      \<and> debug_log (snd (reloadCommands_settled throws sig results s))
          = debug_log s @ filter (\<lambda>r. \<not> is_AbortError r) (rejections results)
      \<and> commands (snd (ccm_reloadCommands_settled throws sig results s))
          = deduplicate (fulfilled_commands results)
      \<and> published (snd (ccm_reloadCommands_settled throws sig results s))
          = published s @ [deduplicate (fulfilled_commands results)]
      \<and> debug_log (snd (ccm_reloadCommands_settled throws sig results s))
          = debug_log s @ rejections results)
   \<and> (signal_aborted s sig \<longrightarrow>
      reloadCommands_settled throws sig results s = (Resolved, s)
      \<and> fst (ccm_reloadCommands_settled throws sig results s) = Resolved
      \<and> commands (snd (ccm_reloadCommands_settled throws sig results s)) = commands s
      \<and> published (snd (ccm_reloadCommands_settled throws sig results s)) = published s
      \<and> debug_log (snd (ccm_reloadCommands_settled throws sig results s)) = debug_log s)
   \<and> fulfilled_commands (before @ Rejected reason # after) = fulfilled_commands (before @ after)"
  by (simp add: reloadCommands_settled_aborted reloadCommands_settled_live
      ccm_reloadCommands_settled_aborted ccm_reloadCommands_settled_live
      fulfilled_commands_append)

theorem loader_failures_isolated_witness:
  "\<not> signal_aborted new_CommandService (External 0)
   \<and> map name (commands (snd (reloadCommands_settled never (External 0) example_results
         new_CommandService)))
       = [''help'', ''myext.help'']
   \<and> debug_log (snd (reloadCommands_settled never (External 0) example_results
         new_CommandService))
       = [Thrown ''disk failure'']
   \<and> debug_log (snd (ccm_reloadCommands_settled never (External 0) example_results
         new_CommandService))
       = [JsError ''AbortError'' ''The operation was aborted'', Thrown ''disk failure'']
   \<and> signal_aborted (abort (External 0) new_CommandService) (External 0)
   \<and> reloadCommands_settled never (External 0) example_results
         (abort (External 0) new_CommandService)
       = (Resolved, abort (External 0) new_CommandService)"
proof -
  have live: "\<not> signal_aborted new_CommandService (External 0)"
    by (simp add: signal_aborted_def new_CommandService_def)
  have dead: "signal_aborted (abort (External 0) new_CommandService) (External 0)"
    by (simp add: signal_aborted_def abort_def)
  have f: "fulfilled_commands example_results = [builtin_help, ext_help]"
    and r: "rejections example_results
      = [JsError ''AbortError'' ''The operation was aborted'', Thrown ''disk failure'']"
    by (simp_all add: example_results_def)
  have d: "map name (deduplicate [builtin_help, ext_help]) = [''help'', ''myext.help'']"
    by (simp add: dedup_eval builtin_help_def ext_help_def)
  have l: "debug_log new_CommandService = []"
    by (simp add: new_CommandService_def)
  show ?thesis
    using live dead
      loader_failures_isolated [of new_CommandService "External 0" never example_results]
      loader_failures_isolated [of "abort (External 0) new_CommandService" "External 0" never
        example_results]
    by (simp add: f r d l)
qed

text \<open>
  Claim C3 as stated fails. A reload superseded by a second call returns at the test
  of its signal, so the rejection of its loader with a \<open>TypeError\<close>, which has
  nothing to do with cancellation, is never logged. With a signal that is not aborted,
  a rejection named \<open>AbortError\<close> (a timeout inside a loader, say) is not caused by the
  signal of the reload and is skipped by the first version, while the second version
  logs it.
\<close>

theorem unlogged_rejection_counterexample:
  "signal_aborted (run never new_CommandService [Begin None, Begin None]) (Internal 0)
   \<and> debug_log (snd (reloadCommands_settled never (Internal 0)
         [Rejected (JsError ''TypeError'' ''x is not a function''), Fulfilled [builtin_help]]
         (run never new_CommandService [Begin None, Begin None]))) = []
   \<and> \<not> signal_aborted (run never new_CommandService [Begin None]) (Internal 0)
   \<and> debug_log (snd (reloadCommands_settled never (Internal 0)
         [Rejected (JsError ''AbortError'' ''request timed out'')]
         (run never new_CommandService [Begin None]))) = []
   \<and> debug_log (snd (ccm_reloadCommands_settled never (Internal 0)
         [Rejected (JsError ''AbortError'' ''request timed out'')]
         (ccm_run never new_CommandService [Begin None])))
       = [JsError ''AbortError'' ''request timed out'']"
  by (simp add: service_eval never_def)

subsection \<open>Overlapping reloads\<close>

text \<open>
  Claim C4. A call without an external signal begins in state \<open>s\<close>, then anything
  happens (\<open>evs1\<close>), then a second call without an external signal begins, then
  anything happens (\<open>evs2\<close>), and then the loaders of the first call have settled.
  The controller of the first call is the current one when that call has begun; the
  second call, if no other call came between, is the one that aborts it, before it
  creates its own; the signal of the first call is aborted from then on; and the
  continuation of the first call resolves and leaves the whole state as it is: no
  snapshot is assigned, no listener is invoked, nothing is logged. A call with an
  external signal leaves the state as it is when it begins, and neither aborts nor
  replaces the controller when it ends. The same holds of the version without external
  signals, as long as the first call has not settled before the second begins (they
  overlap).
\<close>

theorem superseded_reload_discarded:
  "(let first = reloadCommands_begin None s;
        s2 = run throws (snd first) evs1;
        second = reloadCommands_begin None s2;
        s4 = run throws (snd second) evs2
    in fst first = Internal (controllers s)
       \<and> currentAbortController (snd first) = Some (controllers s)
       \<and> ((\<forall>e\<in>set evs1. e \<noteq> Begin None) \<longrightarrow>
             aborted (snd second) = aborted s2 @ [fst first])
       \<and> signal_aborted (snd second) (fst first)
       \<and> signal_aborted s4 (fst first)
       \<and> reloadCommands_settled throws (fst first) results s4 = (Resolved, s4))
   \<and> reloadCommands_begin (Some ext) s = (External ext, s)
   \<and> aborted (snd (reloadCommands_settled throws (External ext) results s)) = aborted s
   \<and> currentAbortController (snd (reloadCommands_settled throws (External ext) results s))
        = currentAbortController s
   \<and> (let first = ccm_reloadCommands_begin s;
          s2 = ccm_run throws (snd first) evs1;
          second = ccm_reloadCommands_begin s2;
          s4 = ccm_run throws (snd second) evs2
      in (\<forall>e\<in>set evs1. \<not> settles (fst first) e) \<longrightarrow>
           ((\<forall>e\<in>set evs1. \<forall>x. e \<noteq> Begin x) \<longrightarrow>
              aborted (snd second) = aborted s2 @ [fst first])
           \<and> signal_aborted (snd second) (fst first)
           \<and> signal_aborted s4 (fst first)
           \<and> ccm_reloadCommands_settled throws (fst first) results s4 = (Resolved, s4))"
  unfolding Let_def
  by (intro conjI impI superseded_registry [rule_format] superseded_manager [rule_format]
      begin_external settled_fields) blast+

theorem superseded_reload_discarded_witness:
  "signal_aborted
     (run never (snd (reloadCommands_begin None
            (run never (snd (reloadCommands_begin None new_CommandService)) [Subscribe 1])))
        [Settle (Internal 1) [Fulfilled [builtin_help]]])
     (Internal 0)
   \<and> reloadCommands_settled never (Internal 0) [Fulfilled [ext_help]]
       (run never (snd (reloadCommands_begin None
              (run never (snd (reloadCommands_begin None new_CommandService)) [Subscribe 1])))
          [Settle (Internal 1) [Fulfilled [builtin_help]]])
     = (Resolved, run never (snd (reloadCommands_begin None
              (run never (snd (reloadCommands_begin None new_CommandService)) [Subscribe 1])))
          [Settle (Internal 1) [Fulfilled [builtin_help]]])
   \<and> commands (run never (snd (reloadCommands_begin None
              (run never (snd (reloadCommands_begin None new_CommandService)) [Subscribe 1])))
          [Settle (Internal 1) [Fulfilled [builtin_help]]]) = [builtin_help]
   \<and> invoked (run never (snd (reloadCommands_begin None
              (run never (snd (reloadCommands_begin None new_CommandService)) [Subscribe 1])))
          [Settle (Internal 1) [Fulfilled [builtin_help]]]) = [1]
   \<and> ccm_reloadCommands_settled never (Internal 0) [Fulfilled [ext_help]]
       (ccm_run never (snd (ccm_reloadCommands_begin
              (ccm_run never (snd (ccm_reloadCommands_begin new_CommandService)) [Subscribe 1])))
          [Settle (Internal 1) [Fulfilled [builtin_help]]])
     = (Resolved, ccm_run never (snd (ccm_reloadCommands_begin
              (ccm_run never (snd (ccm_reloadCommands_begin new_CommandService)) [Subscribe 1])))
          [Settle (Internal 1) [Fulfilled [builtin_help]]])"
proof -
  have sig: "fst (reloadCommands_begin None new_CommandService) = Internal 0"
    "fst (ccm_reloadCommands_begin new_CommandService) = Internal 0"
    by (simp_all add: service_eval)
  have quiet: "\<forall>e\<in>set [Subscribe 1]. \<not> settles (Internal 0) e"
    by simp
  have d: "deduplicate [builtin_help] = [builtin_help]"
    by (simp add: dedup_eval builtin_help_def)
  have c: "commands (run never (snd (reloadCommands_begin None
              (run never (snd (reloadCommands_begin None new_CommandService)) [Subscribe 1])))
          [Settle (Internal 1) [Fulfilled [builtin_help]]]) = [builtin_help]"
    and i: "invoked (run never (snd (reloadCommands_begin None
              (run never (snd (reloadCommands_begin None new_CommandService)) [Subscribe 1])))
          [Settle (Internal 1) [Fulfilled [builtin_help]]]) = [1]"
    by (simp_all add: service_eval never_def d)
  show ?thesis
    using superseded_reload_discarded
      [of new_CommandService never "[Subscribe 1]"
          "[Settle (Internal 1) [Fulfilled [builtin_help]]]" "[Fulfilled [ext_help]]" 0]
      quiet c i
    by (simp add: Let_def sig)
qed

subsection \<open>Subscribers\<close>




text \<open>
  What a listener throws leaves \<open>reloadCommands\<close> when the signal of the call is
  not aborted: the promise rejects.
\<close>

lemma rethrow_example:
  "fst (reloadCommands_settled (\<lambda>listener. listener = 1) (Internal 0) []
      (run (\<lambda>listener. listener = 1) new_CommandService [Subscribe 1, Subscribe 7, Begin None]))
   = Failed 1"
  by (simp add: service_eval)

section \<open>Lookup maps and command resolution\<close>

subsection \<open>\<open>buildLookupMap\<close> (the factory version of \<open>CommandService\<close>)\<close>

text \<open>
  \<^verbatim>\<open>
  for (const cmd of commands) {
    if (cmd.subCommands) {
      const newSubCommands = cmd.subCommands.map((sc) => ({ ...sc }));
      cmd.subCommands = newSubCommands;
      cmd.commandMap = this.buildLookupMap(newSubCommands);
    }
    map.set(cmd.name, cmd);
    if (cmd.altNames) {
      for (const alias of cmd.altNames) {
        map.set(alias, cmd);
      }
    }
  }\<close>
  The loop body first brings the command into its final state (\<open>prepare\<close>: the
  subcommands are cloned and prepared in turn, and their map is attached), then enters
  it under its name and its aliases (\<open>index_command\<close>). The first part does not read
  the map, so the map is the index of the prepared commands.
\<close>

definition index_command :: "SlashCommand js_map \<Rightarrow> SlashCommand \<Rightarrow> SlashCommand js_map" where
  "index_command m cmd =
     foldl (\<lambda>m alias. map_set m alias cmd) (map_set m (name cmd) cmd)
       (case altNames cmd of None \<Rightarrow> [] | Some aliases \<Rightarrow> aliases)"

fun prepare :: "SlashCommand \<Rightarrow> SlashCommand" where
  "prepare (SlashCommand n d k al ext None cm) = SlashCommand n d k al ext None cm"
| "prepare (SlashCommand n d k al ext (Some scs) cm) =
     (let newSubCommands = map prepare scs
      in SlashCommand n d k al ext (Some newSubCommands)
           (Some (foldl index_command [] newSubCommands)))"

definition buildLookupMap :: "SlashCommand list \<Rightarrow> SlashCommand js_map" where
  "buildLookupMap cmds = foldl index_command [] (map prepare cmds)"

subsection \<open>Resolution of an input line\<close>

text \<open>
  Modelled from the spec: the function \<open>parseSlashCommand\<close> of
  \<open>packages/cli/src/utils/commands.ts\<close> is not among the sources; its tests are.
  The definitions of this subsection follow section 4.5 of the specification, and the
  tests where the specification leaves a choice open: the second argument is an array
  of commands or a lookup map, and a command without a \<open>commandMap\<close> is descended
  into through its \<open>subCommands\<close>.
\<close>

text \<open>Modelled from the spec: the characters that separate tokens.\<close>

definition is_whitespace :: "char \<Rightarrow> bool" where
  "is_whitespace c = (c \<in> set [CHR '' '', CHR 0x09, CHR 0x0A, CHR 0x0B, CHR 0x0C, CHR 0x0D])"

text \<open>Modelled from the spec: leading and trailing whitespace removed.\<close>

definition trim :: "string \<Rightarrow> string" where
  "trim s = rev (dropWhile is_whitespace (rev (dropWhile is_whitespace s)))"

text \<open>
  Modelled from the spec: the next token of a text, after the whitespace before it,
  and the text that follows the token. The token is empty at the end of the input.
\<close>

definition next_token :: "string \<Rightarrow> string \<times> string" where
  "next_token s =
     (let t = dropWhile is_whitespace s
      in (takeWhile (\<lambda>c. \<not> is_whitespace c) t, dropWhile (\<lambda>c. \<not> is_whitespace c) t))"

text \<open>
  Modelled from the spec: the nested lookup of a command, if it has one. The tests
  resolve a subcommand through \<open>commandMap\<close> when it is there and through
  \<open>subCommands\<close> otherwise.
\<close>

definition nested_lookup :: "SlashCommand \<Rightarrow> SlashCommand js_map option" where
  "nested_lookup cmd =
     (case commandMap cmd of
        Some lookup \<Rightarrow> Some lookup
      | None \<Rightarrow> map_option buildLookupMap (subCommands cmd))"

text \<open>
  Modelled from the spec: the second argument of \<open>parseSlashCommand\<close>, an array of
  commands or a lookup map, and the top-level lookup it stands for.
\<close>

datatype commands_arg = Array "SlashCommand list" | Lookup "SlashCommand js_map"

fun top_level_lookup :: "commands_arg \<Rightarrow> SlashCommand js_map" where
  "top_level_lookup (Array cmds) = buildLookupMap cmds"
| "top_level_lookup (Lookup lookup) = lookup"

text \<open>Modelled from the spec: the result of a resolution.\<close>

datatype parsed = Parsed
  (commandToExecute: "SlashCommand option")
  (args: string)
  (canonicalPath: "string list")

lemma next_token_shorter: "fst (next_token s) \<noteq> [] \<Longrightarrow> length (snd (next_token s)) < length s"
proof -
  assume a: "fst (next_token s) \<noteq> []"
  let ?t = "dropWhile is_whitespace s"
  from a have "takeWhile (\<lambda>c. \<not> is_whitespace c) ?t \<noteq> []"
    by (simp add: next_token_def Let_def)
  then have "length (dropWhile (\<lambda>c. \<not> is_whitespace c) ?t) < length ?t"
    by (metis append_self_conv2 length_append length_greater_0_conv less_add_same_cancel2
        takeWhile_dropWhile_id)
  moreover have "length ?t \<le> length s"
    by (rule length_dropWhile_le)
  ultimately show ?thesis
    by (simp add: next_token_def Let_def)
qed

text \<open>
  Modelled from the spec: with \<open>cmd\<close> resolved and \<open>path\<close> the names down to it,
  try the next token in the nested lookup of \<open>cmd\<close>, and stop at a command without a
  nested lookup, at the end of the input, or at a token that does not match.
\<close>

function descend :: "SlashCommand \<Rightarrow> string list \<Rightarrow> string \<Rightarrow> parsed" where
  "descend cmd path text =
     (case nested_lookup cmd of
        None \<Rightarrow> Parsed (Some cmd) (trim text) path
      | Some lookup \<Rightarrow>
          if fst (next_token text) = [] then Parsed (Some cmd) (trim text) path
          else (case map_get lookup (fst (next_token text)) of
                  None \<Rightarrow> Parsed (Some cmd) (trim text) path
                | Some sub \<Rightarrow> descend sub (path @ [name sub]) (snd (next_token text))))"
  by pat_completeness auto
termination
  by (relation "measure (\<lambda>(cmd, path, text). length text)") (auto simp: next_token_shorter)

declare descend.simps [simp del]

text \<open>
  Modelled from the spec: an input that is empty, lacks the prefix \<open>/\<close> or is only
  the prefix resolves to no command with an empty argument string; a first token that
  does not resolve leaves the text after the prefix as the argument string.
\<close>

definition parseSlashCommand :: "string \<Rightarrow> commands_arg \<Rightarrow> parsed" where
  "parseSlashCommand query arg =
     (let trimmed = trim query; lookup = top_level_lookup arg in
      if trimmed = [] \<or> hd trimmed \<noteq> CHR ''/'' then Parsed None [] []
      else (let body = tl trimmed in
            if fst (next_token body) = [] then Parsed None [] []
            else (case map_get lookup (fst (next_token body)) of
                    None \<Rightarrow> Parsed None (trim body) []
                  | Some cmd \<Rightarrow> descend cmd [name cmd] (snd (next_token body)))))"

subsection \<open>Resolution as the claim words it\<close>

text \<open>
  The tokens of a text, the longest chain of commands that the tokens resolve to, one
  after the other, and the text left after a number of tokens.
\<close>

function tokens :: "string \<Rightarrow> string list" where
  "tokens s = (if fst (next_token s) = [] then [] else fst (next_token s) # tokens (snd (next_token s)))"
  by pat_completeness auto
termination
  by (relation "measure length") (auto simp: next_token_shorter)

declare tokens.simps [simp del]

fun chain :: "SlashCommand js_map \<Rightarrow> string list \<Rightarrow> SlashCommand list" where
  "chain lookup [] = []"
| "chain lookup (t # ts) =
     (case map_get lookup t of
        None \<Rightarrow> []
      | Some cmd \<Rightarrow>
          cmd # (case nested_lookup cmd of None \<Rightarrow> [] | Some sub \<Rightarrow> chain sub ts))"

fun rest_after :: "nat \<Rightarrow> string \<Rightarrow> string" where
  "rest_after 0 s = s"
| "rest_after (Suc n) s = rest_after n (snd (next_token s))"

fun resolves :: "SlashCommand js_map \<Rightarrow> string list \<Rightarrow> SlashCommand list \<Rightarrow> bool" where
  "resolves lookup ts [] = True"
| "resolves lookup [] (cmd # cmds) = False"
| "resolves lookup (t # ts) (cmd # cmds) =
     (map_get lookup t = Some cmd
      \<and> (cmds = [] \<or> (case nested_lookup cmd of None \<Rightarrow> False | Some sub \<Rightarrow> resolves sub ts cmds)))"

definition sub_chain :: "SlashCommand \<Rightarrow> string list \<Rightarrow> SlashCommand list" where
  "sub_chain cmd ts = (case nested_lookup cmd of None \<Rightarrow> [] | Some sub \<Rightarrow> chain sub ts)"

lemma tokens_unfold:
  "tokens s = (if fst (next_token s) = [] then []
               else fst (next_token s) # tokens (snd (next_token s)))"
  by (subst tokens.simps) simp

lemma chain_Cons:
  "chain lookup (t # ts) =
     (case map_get lookup t of None \<Rightarrow> [] | Some cmd \<Rightarrow> cmd # sub_chain cmd ts)"
  by (cases "map_get lookup t") (simp_all add: sub_chain_def)

lemma descend_chain:
  "descend cmd path text =
     Parsed (Some (last (cmd # sub_chain cmd (tokens text))))
       (trim (rest_after (length (sub_chain cmd (tokens text))) text))
       (path @ map name (sub_chain cmd (tokens text)))"
proof (induction cmd path "text" rule: descend.induct)
  case (1 cmd path "text")
  show ?case
  proof (cases "nested_lookup cmd")
    case None
    then show ?thesis
      by (subst descend.simps) (simp add: sub_chain_def)
  next
    case (Some lookup)
    show ?thesis
    proof (cases "fst (next_token text) = []")
      case True
      then have "tokens text = []"
        by (subst tokens_unfold) simp
      with Some True show ?thesis
        by (subst descend.simps) (simp add: sub_chain_def)
    next
      case False
      let ?tok = "fst (next_token text)" and ?rest = "snd (next_token text)"
      from False have toks: "tokens text = ?tok # tokens ?rest"
        by (subst tokens_unfold) simp
      show ?thesis
      proof (cases "map_get lookup ?tok")
        case None
        with Some False toks show ?thesis
          by (subst descend.simps) (simp add: sub_chain_def)
      next
        case (Some sub)
        have sc: "sub_chain cmd (tokens text) = sub # sub_chain sub (tokens ?rest)"
          using \<open>nested_lookup cmd = Some lookup\<close> Some toks by (simp add: sub_chain_def)
        have "descend cmd path text = descend sub (path @ [name sub]) ?rest"
          using \<open>nested_lookup cmd = Some lookup\<close> False Some by (subst descend.simps) simp
        also have "\<dots> = Parsed (Some (last (sub # sub_chain sub (tokens ?rest))))
            (trim (rest_after (length (sub_chain sub (tokens ?rest))) ?rest))
            ((path @ [name sub]) @ map name (sub_chain sub (tokens ?rest)))"
          using "1.IH" [OF \<open>nested_lookup cmd = Some lookup\<close> False Some] .
        finally show ?thesis
          by (simp add: sc)
      qed
    qed
  qed
qed

lemma resolves_chain: "resolves lookup ts (chain lookup ts)"
proof (induction lookup ts rule: chain.induct)
  case (1 lookup)
  then show ?case by simp
next
  case (2 lookup t ts)
  show ?case
  proof (cases "map_get lookup t")
    case None
    then show ?thesis by simp
  next
    case (Some cmd)
    show ?thesis
    proof (cases "nested_lookup cmd")
      case None
      with Some show ?thesis by simp
    next
      case (Some sub)
      with 2 \<open>map_get lookup t = Some cmd\<close> show ?thesis by simp
    qed
  qed
qed

lemma resolves_prefix: "resolves lookup ts cmds \<Longrightarrow> cmds = take (length cmds) (chain lookup ts)"
proof (induction lookup ts cmds rule: resolves.induct)
  case (1 lookup ts)
  then show ?case by simp
next
  case (2 lookup cmd cmds)
  then show ?case by simp
next
  case (3 lookup t ts cmd cmds)
  then show ?case
    by (cases "nested_lookup cmd") auto
qed

lemma trim_without_token: "fst (next_token s) = [] \<Longrightarrow> trim s = []"
proof -
  assume a: "fst (next_token s) = []"
  let ?t = "dropWhile is_whitespace s"
  have "?t = []"
  proof (rule ccontr)
    assume ne: "?t \<noteq> []"
    then have "\<not> is_whitespace (hd ?t)"
      by (rule hd_dropWhile)
    with ne have "takeWhile (\<lambda>c. \<not> is_whitespace c) ?t \<noteq> []"
      by (cases ?t) auto
    with a show False
      by (simp add: next_token_def Let_def)
  qed
  then have "trim s = rev (dropWhile is_whitespace (rev []))"
    unfolding trim_def by (simp only:)
  then show ?thesis by simp
qed

lemma parse_without_prefix:
  "trim query = [] \<or> hd (trim query) \<noteq> CHR ''/'' \<Longrightarrow>
     parseSlashCommand query arg = Parsed None [] []"
  by (auto simp: parseSlashCommand_def)

subsection \<open>The tests of \<open>parseSlashCommand\<close>\<close>

definition mockCommands :: "SlashCommand list" where
  "mockCommands =
     [SlashCommand ''help'' ''Show help'' ''built-in'' None None None None,
      SlashCommand ''commit'' ''Commit changes'' ''file'' None None None None,
      SlashCommand ''memory'' ''Manage memory'' ''built-in'' (Some [''mem'']) None
        (Some [SlashCommand ''add'' ''Add to memory'' ''built-in'' None None None None,
               SlashCommand ''clear'' ''Clear memory'' ''built-in'' (Some [''c'']) None None None])
        None]"

definition mockMap :: "SlashCommand js_map" where
  "mockMap = foldl index_command [] mockCommands"

definition rootMap :: "SlashCommand js_map" where
  "rootMap =
     [(''root'', SlashCommand ''root'' ''Root command'' ''built-in'' None None None
        (Some [(''sub'', SlashCommand ''sub'' ''Sub command'' ''built-in'' None None None None)]))]"


lemma test_simple_command:
  "map_option name (commandToExecute (parseSlashCommand ''/help'' (Array mockCommands)))
     = Some ''help''"
  "args (parseSlashCommand ''/help'' (Array mockCommands)) = []"
  "canonicalPath (parseSlashCommand ''/help'' (Array mockCommands)) = [''help'']"
  by code_simp+

lemma test_subcommand_with_arguments:
  "map_option name
     (commandToExecute (parseSlashCommand ''/memory add some important data'' (Array mockCommands)))
     = Some ''add''"
  "args (parseSlashCommand ''/memory add some important data'' (Array mockCommands))
     = ''some important data''"
  "canonicalPath (parseSlashCommand ''/memory add some important data'' (Array mockCommands))
     = [''memory'', ''add'']"
  by code_simp+

lemma test_aliases:
  "parseSlashCommand ''/mem add some data'' (Array mockCommands)
     = parseSlashCommand ''/memory add some data'' (Array mockCommands)"
  "map_option name (commandToExecute (parseSlashCommand ''/memory c'' (Array mockCommands)))
     = Some ''clear''"
  "canonicalPath (parseSlashCommand ''/memory c'' (Array mockCommands)) = [''memory'', ''clear'']"
  by code_simp+

lemma test_unknown_command:
  "parseSlashCommand ''/unknown'' (Array mockCommands) = Parsed None ''unknown'' []"
  by code_simp

lemma test_unknown_subcommand:
  "map_option name
     (commandToExecute (parseSlashCommand ''/memory unknownsub some args'' (Array mockCommands)))
     = Some ''memory''"
  "args (parseSlashCommand ''/memory unknownsub some args'' (Array mockCommands))
     = ''unknownsub some args''"
  "canonicalPath (parseSlashCommand ''/memory unknownsub some args'' (Array mockCommands))
     = [''memory'']"
  by code_simp+

lemma test_extra_whitespace:
  "map_option name
     (commandToExecute (parseSlashCommand ''  /memory   add  some data  '' (Array mockCommands)))
     = Some ''add''"
  "args (parseSlashCommand ''  /memory   add  some data  '' (Array mockCommands)) = ''some data''"
  "canonicalPath (parseSlashCommand ''  /memory   add  some data  '' (Array mockCommands))
     = [''memory'', ''add'']"
  by code_simp+

lemma test_no_command:
  "commandToExecute (parseSlashCommand ''help'' (Array mockCommands)) = None"
  "commandToExecute (parseSlashCommand [] (Array mockCommands)) = None"
  "parseSlashCommand ''/'' (Array mockCommands) = Parsed None [] []"
  by code_simp+

lemma test_lookup_maps:
  "map_option name (commandToExecute (parseSlashCommand ''/memory add'' (Lookup mockMap)))
     = Some ''add''"
  "canonicalPath (parseSlashCommand ''/memory add'' (Lookup mockMap)) = [''memory'', ''add'']"
  "map_option name (commandToExecute (parseSlashCommand ''/root sub'' (Lookup rootMap)))
     = Some ''sub''"
  "canonicalPath (parseSlashCommand ''/root sub'' (Lookup rootMap)) = [''root'', ''sub'']"
  by code_simp+


text \<open>
  Claim C7. Let the input, trimmed, be the prefix \<open>/\<close> followed by \<open>body\<close>. The
  commands resolved are the chain of the tokens of \<open>body\<close>: the first token looked
  up at top level by name or alias (the keys of the lookup), each further token looked
  up in the nested lookup of the command before it, for as long as tokens match. The
  chain is resolvable, and every resolvable sequence of commands is an initial part of
  it. The result is the last command of the chain (none when the chain is empty), the
  names of the commands of the chain, and the text left after the tokens of the chain,
  trimmed. When the first token does not resolve, no command is returned, the path is
  empty and the argument string is the whole of \<open>body\<close>, trimmed.
\<close>

theorem resolution_returns_deepest_match:
  assumes "trim query = CHR ''/'' # body"
  shows "resolves (top_level_lookup arg) (tokens body) (chain (top_level_lookup arg) (tokens body))
     \<and> (\<forall>cmds. resolves (top_level_lookup arg) (tokens body) cmds \<longrightarrow>
            cmds = take (length cmds) (chain (top_level_lookup arg) (tokens body)))
     \<and> commandToExecute (parseSlashCommand query arg) =
          (if chain (top_level_lookup arg) (tokens body) = [] then None
           else Some (last (chain (top_level_lookup arg) (tokens body))))
     \<and> canonicalPath (parseSlashCommand query arg) = map name (chain (top_level_lookup arg) (tokens body))
     \<and> args (parseSlashCommand query arg) =
          trim (rest_after (length (chain (top_level_lookup arg) (tokens body))) body)
     \<and> (chain (top_level_lookup arg) (tokens body) = [] \<longrightarrow>
          commandToExecute (parseSlashCommand query arg) = None
          \<and> canonicalPath (parseSlashCommand query arg) = []
          \<and> args (parseSlashCommand query arg) = trim body)"
proof -
  let ?tok = "fst (next_token body)" and ?rest = "snd (next_token body)"
  let ?ch = "chain (top_level_lookup arg) (tokens body)"
  let ?r = "parseSlashCommand query arg"
  have r: "?r = Parsed (if ?ch = [] then None else Some (last ?ch))
                  (trim (rest_after (length ?ch) body)) (map name ?ch)"
  proof (cases "?tok = []")
    case True
    then have "tokens body = []" by (subst tokens_unfold) simp
    with True assms show ?thesis
      by (simp add: parseSlashCommand_def trim_without_token)
  next
    case False
    then have toks: "tokens body = ?tok # tokens ?rest"
      by (subst tokens_unfold) simp
    show ?thesis
    proof (cases "map_get (top_level_lookup arg) ?tok")
      case None
      with False assms toks show ?thesis
        by (simp add: parseSlashCommand_def)
    next
      case (Some cmd)
      have ch: "?ch = cmd # sub_chain cmd (tokens ?rest)"
        by (simp add: toks Some sub_chain_def)
      have "?r = descend cmd [name cmd] ?rest"
        using False assms Some by (simp add: parseSlashCommand_def)
      then show ?thesis
        unfolding descend_chain ch by simp
    qed
  qed
  have 1: "resolves (top_level_lookup arg) (tokens body) ?ch"
    by (rule resolves_chain)
  have 2: "\<forall>cmds. resolves (top_level_lookup arg) (tokens body) cmds \<longrightarrow> cmds = take (length cmds) ?ch"
    using resolves_prefix by blast
  show ?thesis
    using 1 2 by (simp add: r)
qed

theorem resolution_returns_deepest_match_witness:
  "trim '' /mem add  some data '' = CHR ''/'' # ''mem add  some data''
   \<and> map name (chain (top_level_lookup (Array mockCommands)) (tokens ''mem add  some data''))
       = [''memory'', ''add'']
   \<and> canonicalPath (parseSlashCommand '' /mem add  some data '' (Array mockCommands))
       = [''memory'', ''add'']
   \<and> args (parseSlashCommand '' /mem add  some data '' (Array mockCommands)) = ''some data''
   \<and> trim ''/unknown x'' = CHR ''/'' # ''unknown x''
   \<and> chain (top_level_lookup (Array mockCommands)) (tokens ''unknown x'') = []
   \<and> commandToExecute (parseSlashCommand ''/unknown x'' (Array mockCommands)) = None
   \<and> args (parseSlashCommand ''/unknown x'' (Array mockCommands)) = ''unknown x''"
proof -
  have h1: "trim '' /mem add  some data '' = CHR ''/'' # ''mem add  some data''"
    by code_simp
  have h2: "trim ''/unknown x'' = CHR ''/'' # ''unknown x''"
    by code_simp
  have c1: "map name (chain (top_level_lookup (Array mockCommands)) (tokens ''mem add  some data''))
      = [''memory'', ''add'']"
    by code_simp
  have c2: "chain (top_level_lookup (Array mockCommands)) (tokens ''unknown x'') = []"
    by code_simp
  have a1: "args (parseSlashCommand '' /mem add  some data '' (Array mockCommands)) = ''some data''"
    by code_simp
  have t2: "trim ''unknown x'' = ''unknown x''"
    by code_simp
  from resolution_returns_deepest_match [OF h1, of "Array mockCommands"]
  have p1: "canonicalPath (parseSlashCommand '' /mem add  some data '' (Array mockCommands))
      = map name (chain (top_level_lookup (Array mockCommands)) (tokens ''mem add  some data''))"
    by blast
  from resolution_returns_deepest_match [OF h2, of "Array mockCommands"] c2
  have p2: "commandToExecute (parseSlashCommand ''/unknown x'' (Array mockCommands)) = None
      \<and> args (parseSlashCommand ''/unknown x'' (Array mockCommands)) = trim ''unknown x''"
    by blast
  show ?thesis
    using h1 h2 c1 c2 a1 p1 p2 t2 by simp
qed

end
